theory Spec2Isabelle
  imports Complex_Main "HOL-Library.Multiset" "HOL-Library.Product_Lexorder" "HOL-Library.Word"
begin

unbundle bit_operations_syntax

section \<open>Python built-ins used by the utilities\<close>

text \<open>
  The three scripts \<^verbatim>\<open>computeStatistics.py\<close>, \<^verbatim>\<open>convertNumbers.py\<close> and
  \<^verbatim>\<open>wordCount.py\<close> are embedded function by function. Python's \<^verbatim>\<open>int\<close> is
  \<^typ>\<open>int\<close>, a \<^verbatim>\<open>str\<close> is a \<^typ>\<open>string\<close>, a \<^verbatim>\<open>list\<close> is a list and a
  \<^verbatim>\<open>dict\<close> is an association list in insertion order. A \<^verbatim>\<open>float\<close> is a
  \<^typ>\<open>real\<close>, without rounding; where the values of a float that are no real number
  decide a property (the median under permutation), the function is given on a type
  that has them.
\<close>

datatype error = ZeroDivisionError | IndexError | ValueError

subsection \<open>\<^verbatim>\<open>str\<close> of an integer\<close>

definition DEC_DIGITS :: string where
  "DEC_DIGITS = ''0123456789''"

fun str_nat :: "nat \<Rightarrow> string" where
  "str_nat n = (if n < 10 then [DEC_DIGITS ! n] else str_nat (n div 10) @ [DEC_DIGITS ! (n mod 10)])"

declare str_nat.simps [simp del]

definition str_int :: "int \<Rightarrow> string" where
  "str_int i = (if i < 0 then ''-'' @ str_nat (nat (- i)) else str_nat (nat i))"

subsection \<open>\<^verbatim>\<open>range(start, stop, step)\<close>\<close>

text \<open>
  The elements of a Python range, counted from \<open>start\<close> in steps of \<open>step\<close> while they
  stay before \<open>stop\<close>. Every range of the sources has a literal non-zero step, so the
  \<^verbatim>\<open>ValueError\<close> of a zero step is not a branch here (the list is empty there).
\<close>

definition py_range :: "int \<Rightarrow> int \<Rightarrow> int \<Rightarrow> int list" where
  "py_range start stop step =
     (if step > 0 then map (\<lambda>k. start + int k * step) [0..<nat ((stop - start + step - 1) div step)]
      else if step < 0 then map (\<lambda>k. start + int k * step) [0..<nat ((start - stop - step - 1) div (- step))]
      else [])"

subsection \<open>Indexing, \<^verbatim>\<open>max\<close>, dictionaries\<close>

text \<open>
  \<^verbatim>\<open>xs[i]\<close>: a negative index counts from the end, and an index outside the list
  raises \<^verbatim>\<open>IndexError\<close>.
\<close>

definition getitem :: "'a list \<Rightarrow> int \<Rightarrow> error + 'a" where
  "getitem xs i =
     (let j = (if i < 0 then int (length xs) + i else i)
      in if 0 \<le> j \<and> j < int (length xs) then Inr (xs ! nat j) else Inl IndexError)"

fun py_max :: "'a::linorder list \<Rightarrow> error + 'a" where
  "py_max [] = Inl ValueError"
| "py_max (x # xs) = Inr (foldl max x xs)"

definition bind_err :: "error + 'a \<Rightarrow> ('a \<Rightarrow> error + 'b) \<Rightarrow> error + 'b" where
  "bind_err m f = (case m of Inl e \<Rightarrow> Inl e | Inr x \<Rightarrow> f x)"

text \<open>
  A \<^verbatim>\<open>dict\<close> keeps its keys in the order of their first insertion; storing under a
  key that is present replaces the value where the key stands.
\<close>

type_synonym ('k, 'v) dict = "('k \<times> 'v) list"

definition dict_get :: "('k, 'v) dict \<Rightarrow> 'k \<Rightarrow> 'v \<Rightarrow> 'v" where
  "dict_get d k dflt = (case map_of d k of Some v \<Rightarrow> v | None \<Rightarrow> dflt)"

fun dict_set :: "('k, 'v) dict \<Rightarrow> 'k \<Rightarrow> 'v \<Rightarrow> ('k, 'v) dict" where
  "dict_set [] k v = [(k, v)]"
| "dict_set ((k', v') # d) k v = (if k' = k then (k', v) # d else (k', v') # dict_set d k v)"

subsection \<open>Strings\<close>

text \<open>
  A \<^typ>\<open>char\<close> is a code point below 256. The character tests are Python's
  \<^verbatim>\<open>str.isspace\<close>, \<^verbatim>\<open>str.isalnum\<close> and \<^verbatim>\<open>str.lower\<close> on these code points: beside
  the ASCII classes, the no-break space and the next-line control are white space, the
  Latin-1 letters, ordinal indicators, superscript digits and fractions are alphanumeric,
  and the Latin-1 capital letters have a lower case 32 code points higher. Text with
  code points from 256 on is outside the type.
\<close>

definition isspace :: "char \<Rightarrow> bool" where
  "isspace c =
     (let n = of_char c :: nat
      in (9 \<le> n \<and> n \<le> 13) \<or> (28 \<le> n \<and> n \<le> 32) \<or> n = 0x85 \<or> n = 0xA0)"

definition isalnum :: "char \<Rightarrow> bool" where
  "isalnum c =
     (let n = of_char c :: nat
      in (48 \<le> n \<and> n \<le> 57) \<or> (65 \<le> n \<and> n \<le> 90) \<or> (97 \<le> n \<and> n \<le> 122)
         \<or> n = 0xAA \<or> (0xB2 \<le> n \<and> n \<le> 0xB3) \<or> n = 0xB5 \<or> (0xB9 \<le> n \<and> n \<le> 0xBA)
         \<or> (0xBC \<le> n \<and> n \<le> 0xBE) \<or> (0xC0 \<le> n \<and> n \<le> 0xD6) \<or> (0xD8 \<le> n \<and> n \<le> 0xF6)
         \<or> 0xF8 \<le> n)"

definition lower :: "char \<Rightarrow> string" where
  "lower c =
     (let n = of_char c :: nat
      in if (65 \<le> n \<and> n \<le> 90) \<or> (0xC0 \<le> n \<and> n \<le> 0xD6) \<or> (0xD8 \<le> n \<and> n \<le> 0xDE)
         then [char_of (n + 32)] else [c])"

definition strip :: "string \<Rightarrow> string" where
  "strip s = rev (dropWhile isspace (rev (dropWhile isspace s)))"

definition rstrip_chars :: "string \<Rightarrow> string \<Rightarrow> string" where
  "rstrip_chars s chars = rev (dropWhile (\<lambda>c. c \<in> set chars) (rev s))"

text \<open>\<^verbatim>\<open>s.split(sep)\<close> for a separator of one character: every occurrence cuts.\<close>

fun split :: "string \<Rightarrow> char \<Rightarrow> string list" where
  "split [] sep = [[]]"
| "split (c # cs) sep =
     (if c = sep then [] # split cs sep
      else (c # hd (split cs sep)) # tl (split cs sep))"

text \<open>\<^verbatim>\<open>os.path.basename\<close> and the root of \<^verbatim>\<open>os.path.splitext\<close>, on POSIX paths.\<close>

definition basename :: "string \<Rightarrow> string" where
  "basename p = rev (takeWhile (\<lambda>c. c \<noteq> CHR ''/'') (rev p))"

definition splitext_root :: "string \<Rightarrow> string" where
  "splitext_root p =
     (let lead = takeWhile (\<lambda>c. c = CHR ''.'') p;
          rest = dropWhile (\<lambda>c. c = CHR ''.'') p
      in if CHR ''.'' \<in> set rest
         then lead @ rev (tl (dropWhile (\<lambda>c. c \<noteq> CHR ''.'') (rev rest)))
         else p)"

subsection \<open>Files, the console and the process\<close>

text \<open>
  A file system maps a path to the lines that iterating over the open file yields (each
  with its line terminator, if it has one); \<open>None\<close> is a path whose \<^verbatim>\<open>open\<close> raises
  \<^verbatim>\<open>FileNotFoundError\<close>. A function that may call \<^verbatim>\<open>sys.exit\<close> returns either its
  value or the message it printed and the exit status.
\<close>

type_synonym filesystem = "string \<Rightarrow> string list option"

datatype 'a result = SysExit string int | Ok 'a

text \<open>
  An f-string is literal text and formatted values. Integers are formatted by
  \<^const>\<open>str_int\<close>; a formatted float stays a value, since its decimal rendering is not
  modelled. A text is a list of lines, each a list of fragments.
\<close>

datatype frag = Txt string | Flt real

type_synonym line = "frag list"

record outcome =
  console :: "line list"
  exit_status :: int
  saved :: "(string \<times> line list) option"

text \<open>
  The integer literals \<^verbatim>\<open>[+-]?[0-9]+\<close>, which \<^verbatim>\<open>int\<close> and \<^verbatim>\<open>float\<close> both accept.
  The readers below take the parser as a parameter; this one instantiates it in the
  scenarios.
\<close>

definition digits_value :: "string \<Rightarrow> nat" where
  "digits_value s = foldl (\<lambda>n c. 10 * n + (of_char c - 48)) 0 s"

definition all_digits :: "string \<Rightarrow> bool" where
  "all_digits s = (s \<noteq> [] \<and> list_all (\<lambda>c. 48 \<le> (of_char c :: nat) \<and> (of_char c :: nat) \<le> 57) s)"

definition int_literal :: "string \<Rightarrow> int option" where
  "int_literal s =
     (case s of
        [] \<Rightarrow> None
      | c # cs \<Rightarrow>
          if c = CHR ''-'' then (if all_digits cs then Some (- int (digits_value cs)) else None)
          else if c = CHR ''+'' then (if all_digits cs then Some (int (digits_value cs)) else None)
          else if all_digits s then Some (int (digits_value s)) else None)"

definition float_literal :: "string \<Rightarrow> real option" where
  "float_literal s = map_option of_int (int_literal s)"


section \<open>convertNumbers.py\<close>

definition HEX_DIGITS :: string where
  "HEX_DIGITS = ''0123456789ABCDEF''"

text \<open>
  The \<^verbatim>\<open>while n > 0\<close> loop of \<^verbatim>\<open>to_binary\<close>: the state is \<open>n\<close> and the list
  \<open>bits\<close>, least significant digit first.
\<close>

function to_binary_loop :: "int \<Rightarrow> string list \<Rightarrow> string list" where
  "to_binary_loop n bits =
     (if n > 0 then to_binary_loop (n div 2) (bits @ [str_int (n mod 2)]) else bits)"
  by pat_completeness auto
termination
  by (relation "measure (\<lambda>(n, bits). nat n)") auto

declare to_binary_loop.simps [simp del]

text \<open>
  \<^verbatim>\<open>to_binary\<close>. The negative branch reads the bits of \<open>unsigned = (1 << 10) + v\<close> from
  bit 9 down to bit 0; Python's \<^verbatim>\<open>>>\<close> and \<^verbatim>\<open>&\<close> on an unbounded integer are
  \<^const>\<open>drop_bit\<close> and \<open>AND\<close> on \<^typ>\<open>int\<close> (both two's complement, of any length).
\<close>

definition to_binary :: "int \<Rightarrow> string" where
  "to_binary v =
     (if v \<ge> 0 then
        (if v = 0 then ''0'' else concat (rev (to_binary_loop v [])))
      else
        (let width = 10 :: nat;
             unsigned = push_bit width 1 + v
         in concat (foldl (\<lambda>bits i. bits @ [str_int (drop_bit (nat i) unsigned AND 1)]) []
                      (py_range (int width - 1) (- 1) (- 1)))))"

text \<open>
  The loop of \<^verbatim>\<open>to_hex\<close>. \<^verbatim>\<open>HEX_DIGITS[n % 16]\<close> is an index between 0 and 15, so
  the read is always in range.
\<close>

function to_hex_loop :: "int \<Rightarrow> string list \<Rightarrow> string list" where
  "to_hex_loop n digits =
     (if n > 0 then to_hex_loop (n div 16) (digits @ [[HEX_DIGITS ! nat (n mod 16)]]) else digits)"
  by pat_completeness auto
termination
  by (relation "measure (\<lambda>(n, digits). nat n)") auto

declare to_hex_loop.simps [simp del]

definition to_hex :: "int \<Rightarrow> string" where
  "to_hex v =
     (if v \<ge> 0 then
        (if v = 0 then ''0'' else concat (rev (to_hex_loop v [])))
      else
        (let width_bits = 40 :: nat;
             unsigned = push_bit width_bits 1 + v
         in concat (foldl (\<lambda>digits shift. digits @ [[HEX_DIGITS ! nat (drop_bit (nat shift) unsigned AND 15)]]) []
                      (py_range (int width_bits - 4) (- 1) (- 4)))))"

text \<open>
  \<^verbatim>\<open>read_items\<close>: one step per line of the file, numbered from 1. \<open>int_of\<close> is
  Python's \<^verbatim>\<open>int(text)\<close>, with \<open>None\<close> for its \<^verbatim>\<open>ValueError\<close>.
\<close>

type_synonym item = "string \<times> int option"

definition read_items_step ::
  "(string \<Rightarrow> int option) \<Rightarrow> item list \<times> string list \<Rightarrow> nat \<times> string \<Rightarrow> item list \<times> string list" where
  "read_items_step int_of st entry =
     (case st of (items, errors) \<Rightarrow>
      case entry of (line_number, line) \<Rightarrow>
        let text = strip line in
        if text = [] then
          (items @ [(text, None)],
           errors @ [''Line '' @ str_int (int line_number) @ '': empty line (skipped)''])
        else
          (case int_of text of
             Some n \<Rightarrow> (items @ [(text, Some n)], errors)
           | None \<Rightarrow>
              (items @ [(text, None)],
               errors @ [''Line '' @ str_int (int line_number) @ '': invalid number '' @ [CHR 0x27]
                           @ text @ [CHR 0x27] @ '' (skipped)''])))"

definition read_items ::
  "(string \<Rightarrow> int option) \<Rightarrow> filesystem \<Rightarrow> string \<Rightarrow> (item list \<times> string list) result" where
  "read_items int_of fs filename =
     (case fs filename of
        None \<Rightarrow> SysExit (''ERROR: File not found: '' @ filename) 1
      | Some file \<Rightarrow> Ok (foldl (read_items_step int_of) ([], []) (List.enumerate 1 file)))"

definition convert_RESULT_FILE :: string where
  "convert_RESULT_FILE = ''ConvertionResults.txt''"

definition build_results_text :: "string \<Rightarrow> item list \<Rightarrow> string list \<Rightarrow> real \<Rightarrow> line list" where
  "build_results_text filename items errors elapsed_time =
     [[Txt ''Convert Numbers - Results''],
      [Txt ''-------------------------''],
      [Txt ''Input file: '', Txt filename],
      [Txt ''Valid numbers: '', Txt (str_int (int (length (filter (\<lambda>(_, v). v \<noteq> None) items))))],
      [Txt ''Invalid lines: '', Txt (str_int (int (length errors)))],
      [],
      [Txt ''Number | Binary | Hex''],
      [Txt ''---------------------'']]
     @ map (\<lambda>(raw_text, v).
              case v of
                None \<Rightarrow> [Txt raw_text, Txt '' | #VALUE! | #VALUE!'']
              | Some n \<Rightarrow> [Txt (str_int n), Txt '' | '', Txt (to_binary n), Txt '' | '', Txt (to_hex n)])
           items
     @ [[], [Txt ''Elapsed time (s): '', Flt elapsed_time]]"

text \<open>
  \<^verbatim>\<open>main\<close> of convertNumbers.py. \<open>argv\<close> is \<^verbatim>\<open>sys.argv\<close>, \<open>elapsed_time\<close> the
  difference of the two clock readings. \<^verbatim>\<open>print(results)\<close> ends the report, which
  already ends in a newline, with one more.
\<close>

definition convert_main ::
  "(string \<Rightarrow> int option) \<Rightarrow> filesystem \<Rightarrow> real \<Rightarrow> string list \<Rightarrow> outcome" where
  "convert_main int_of fs elapsed_time argv =
     (if length argv \<noteq> 2 then
        \<lparr>console = [[Txt ''Usage: python convertNumbers.py fileWithData.txt'']],
         exit_status = 1, saved = None\<rparr>
      else
        let filename = argv ! 1 in
        case read_items int_of fs filename of
          SysExit msg status \<Rightarrow> \<lparr>console = [[Txt msg]], exit_status = status, saved = None\<rparr>
        | Ok (items, errors) \<Rightarrow>
            let printed = map (\<lambda>e. [Txt ''ERROR: '', Txt e]) errors in
            if list_all (\<lambda>(_, v). v = None) items then
              \<lparr>console = printed @ [[Txt ''ERROR: No valid numbers found in the input file.'']],
               exit_status = 1, saved = None\<rparr>
            else
              let results = build_results_text filename items errors elapsed_time in
              \<lparr>console = printed @ results @ [[]],
               exit_status = 0, saved = Some (convert_RESULT_FILE, results)\<rparr>)"

section \<open>computeStatistics.py\<close>

text \<open>
  \<^verbatim>\<open>read_numbers\<close>; \<open>float_of\<close> is Python's \<^verbatim>\<open>float(text)\<close>, with \<open>None\<close> for its
  \<^verbatim>\<open>ValueError\<close>.
\<close>

definition read_numbers_step ::
  "(string \<Rightarrow> real option) \<Rightarrow> real list \<times> string list \<Rightarrow> nat \<times> string \<Rightarrow> real list \<times> string list" where
  "read_numbers_step float_of st entry =
     (case st of (numbers, errors) \<Rightarrow>
      case entry of (line_number, line) \<Rightarrow>
        let text = strip line in
        if text = [] then
          (numbers, errors @ [''Line '' @ str_int (int line_number) @ '': empty line (skipped)''])
        else
          (case float_of text of
             Some x \<Rightarrow> (numbers @ [x], errors)
           | None \<Rightarrow>
              (numbers,
               errors @ [''Line '' @ str_int (int line_number) @ '': invalid number '' @ [CHR 0x27]
                           @ text @ [CHR 0x27] @ '' (skipped)''])))"

definition read_numbers ::
  "(string \<Rightarrow> real option) \<Rightarrow> filesystem \<Rightarrow> string \<Rightarrow> (real list \<times> string list) result" where
  "read_numbers float_of fs filename =
     (case fs filename of
        None \<Rightarrow> SysExit (''ERROR: File not found: '' @ filename) 1
      | Some file \<Rightarrow> Ok (foldl (read_numbers_step float_of) ([], []) (List.enumerate 1 file)))"

definition mean :: "real list \<Rightarrow> error + real" where
  "mean values =
     (let total = foldl (\<lambda>total v. total + v) 0 values
      in if length values = 0 then Inl ZeroDivisionError else Inr (total / real (length values)))"

definition median :: "real list \<Rightarrow> error + real" where
  "median values =
     (let sorted_values = sort values;
          n = int (length sorted_values);
          middle = n div 2
      in if n mod 2 = 1 then getitem sorted_values middle
         else bind_err (getitem sorted_values (middle - 1)) (\<lambda>a.
              bind_err (getitem sorted_values middle) (\<lambda>b.
              Inr ((a + b) / 2))))"

text \<open>
  The same function on the values of a Python float: \<open>Fin r\<close> is the finite number
  \<open>r\<close> (\<open>Fin 0\<close> is the positive zero), \<open>NegZero\<close> the negative zero, and there are two
  infinities and NaN. Rounding and overflow are not modelled. \<open>float_key\<close> orders the
  values as Python's \<^verbatim>\<open><\<close> does, which holds for no pair with a NaN and makes the two
  zeros equal.
\<close>

datatype pyfloat = Fin real | NegZero | PosInf | NegInf | NaN

fun float_key :: "pyfloat \<Rightarrow> int \<times> real" where
  "float_key NegInf = (- 1, 0)"
| "float_key (Fin r) = (0, r)"
| "float_key NegZero = (0, 0)"
| "float_key PosInf = (1, 0)"
| "float_key NaN = (2, 0)"

text \<open>
  \<^verbatim>\<open>sorted\<close> is a stable sort by \<^verbatim>\<open><\<close>. On floats without NaN that fixes its result,
  the stable sort by \<^const>\<open>float_key\<close>. With a NaN in a list of two or more elements the
  comparisons are not those of an order, and the result depends on the sorting
  algorithm of the interpreter: it is \<open>None\<close> here.
\<close>

definition py_sorted :: "pyfloat list \<Rightarrow> pyfloat list option" where
  "py_sorted xs =
     (if length xs \<le> 1 then Some xs
      else if NaN \<in> set xs then None
      else Some (sort_key float_key xs))"

text \<open>\<^verbatim>\<open>a + b\<close> and \<^verbatim>\<open>x / 2\<close> on floats, with the signs of zero of IEEE 754.\<close>

fun float_add :: "pyfloat \<Rightarrow> pyfloat \<Rightarrow> pyfloat" where
  "float_add NaN b = NaN"
| "float_add a NaN = NaN"
| "float_add PosInf NegInf = NaN"
| "float_add NegInf PosInf = NaN"
| "float_add PosInf b = PosInf"
| "float_add a PosInf = PosInf"
| "float_add NegInf b = NegInf"
| "float_add a NegInf = NegInf"
| "float_add NegZero NegZero = NegZero"
| "float_add NegZero (Fin r) = Fin r"
| "float_add (Fin r) NegZero = Fin r"
| "float_add (Fin a) (Fin b) = Fin (a + b)"

fun float_half :: "pyfloat \<Rightarrow> pyfloat" where
  "float_half (Fin r) = Fin (r / 2)"
| "float_half NegZero = NegZero"
| "float_half PosInf = PosInf"
| "float_half NegInf = NegInf"
| "float_half NaN = NaN"

text \<open>
  \<^verbatim>\<open>median\<close> on these values; \<open>None\<close> where \<^verbatim>\<open>sorted\<close> is not determined.
\<close>

definition median_float :: "pyfloat list \<Rightarrow> (error + pyfloat) option" where
  "median_float values =
     (case py_sorted values of
        None \<Rightarrow> None
      | Some sorted_values \<Rightarrow>
          Some (let n = int (length sorted_values);
                    middle = n div 2
                in if n mod 2 = 1 then getitem sorted_values middle
                   else bind_err (getitem sorted_values (middle - 1)) (\<lambda>a.
                        bind_err (getitem sorted_values middle) (\<lambda>b.
                        Inr (float_half (float_add a b))))))"

text \<open>
  \<^verbatim>\<open>mode\<close>: the frequency dictionary, its largest count, and the loop that keeps the
  largest key among those with that count. The result is \<open>None\<close> for Python's \<^verbatim>\<open>None\<close>.
\<close>

definition count_step :: "('k, int) dict \<Rightarrow> 'k \<Rightarrow> ('k, int) dict" where
  "count_step frequency v = dict_set frequency v (dict_get frequency v 0 + 1)"

definition best_step :: "int \<Rightarrow> real option \<Rightarrow> real \<times> int \<Rightarrow> real option" where
  "best_step max_count best vc =
     (case vc of (val, cnt) \<Rightarrow>
        if cnt = max_count then
          (case best of None \<Rightarrow> Some val | Some b \<Rightarrow> if val > b then Some val else best)
        else best)"

definition mode :: "real list \<Rightarrow> error + real option" where
  "mode values =
     (let frequency = foldl count_step [] values
      in bind_err (py_max (map snd frequency)) (\<lambda>max_count.
           if max_count = 1 then Inr None
           else Inr (foldl (best_step max_count) None frequency)))"

definition variance :: "real list \<Rightarrow> real \<Rightarrow> real" where
  "variance values avg =
     (let total = foldl (\<lambda>total v. let diff = v - avg in total + diff * diff) 0 values;
          n = length values
      in if n < 2 then 0 else total / (real n - 1))"

text \<open>
  \<^verbatim>\<open>var ** 0.5\<close> is the square root of a non-negative float. The only argument
  \<^verbatim>\<open>main\<close> passes is a variance, which is not negative.
\<close>

definition standard_deviation :: "real \<Rightarrow> real" where
  "standard_deviation var = sqrt var"

definition statistics_RESULT_FILE :: string where
  "statistics_RESULT_FILE = ''StatisticsResults.txt''"

text \<open>
  \<^verbatim>\<open>main\<close> of computeStatistics.py. The report is the f-string \<^verbatim>\<open>results\<close>, line by
  line; an exception of \<^verbatim>\<open>mean\<close>, \<^verbatim>\<open>median\<close> or \<^verbatim>\<open>mode\<close> would leave
  \<^verbatim>\<open>main\<close> uncaught.
\<close>

definition statistics_main ::
  "(string \<Rightarrow> real option) \<Rightarrow> filesystem \<Rightarrow> real \<Rightarrow> string list \<Rightarrow> error + outcome" where
  "statistics_main float_of fs elapsed_time argv =
     (if length argv \<noteq> 2 then
        Inr \<lparr>console = [[Txt ''Usage: python computeStatistics.py fileWithData.txt'']],
             exit_status = 1, saved = None\<rparr>
      else
        let filename = argv ! 1 in
        case read_numbers float_of fs filename of
          SysExit msg status \<Rightarrow> Inr \<lparr>console = [[Txt msg]], exit_status = status, saved = None\<rparr>
        | Ok (numbers, errors) \<Rightarrow>
            let printed = map (\<lambda>e. [Txt ''ERROR: '', Txt e]) errors in
            if length numbers = 0 then
              Inr \<lparr>console = printed @ [[Txt ''ERROR: No valid numbers found in the input file.'']],
                   exit_status = 1, saved = None\<rparr>
            else
              bind_err (mean numbers) (\<lambda>avg.
              bind_err (median numbers) (\<lambda>med.
              bind_err (mode numbers) (\<lambda>mo.
                let var = variance numbers avg;
                    var_population = var * (real (length numbers) - 1) / real (length numbers);
                    std = standard_deviation var_population;
                    mode_text = (case mo of None \<Rightarrow> Txt ''#N/A'' | Some m \<Rightarrow> Flt m);
                    results =
                      [[Txt ''Compute Statistics - Results''],
                       [Txt ''----------------------------''],
                       [Txt ''Input file: '', Txt filename],
                       [Txt ''Valid numbers: '', Txt (str_int (int (length numbers)))],
                       [Txt ''Invalid lines: '', Txt (str_int (int (length errors)))],
                       [],
                       [Txt ''Descriptive Statistics (population):''],
                       [Txt ''Mean: '', Flt avg],
                       [Txt ''Median: '', Flt med],
                       [Txt ''Mode: '', mode_text],
                       [Txt ''Variance: '', Flt var],
                       [Txt ''Standard deviation: '', Flt std],
                       [],
                       [Txt ''Elapsed time (s): '', Flt elapsed_time]]
                in Inr \<lparr>console = printed @ results @ [[]],
                        exit_status = 0, saved = Some (statistics_RESULT_FILE, results)\<rparr>))))"

section \<open>wordCount.py\<close>

definition normalize_token :: "string \<Rightarrow> string" where
  "normalize_token token =
     concat (foldl (\<lambda>cleaned ch. if isalnum ch then cleaned @ [lower ch] else cleaned) [] token)"

definition words_of_parts :: "string list \<Rightarrow> string list \<Rightarrow> string list" where
  "words_of_parts words parts =
     foldl (\<lambda>words part.
              let normalized = normalize_token part
              in if normalized = [] then words @ [''(blank)''] else words @ [normalized])
           words parts"

definition read_words_step :: "string list \<times> string list \<Rightarrow> nat \<times> string \<Rightarrow> string list \<times> string list" where
  "read_words_step st entry =
     (case st of (words, errors) \<Rightarrow>
      case entry of (line_number, line) \<Rightarrow>
        let raw_line = rstrip_chars line [CHR 0x0A] in
        if strip raw_line = [] then
          (words, errors @ [''Line '' @ str_int (int line_number) @ '': empty line (skipped)''])
        else
          let parts = split raw_line CHR '' '' in
          (words_of_parts words parts, errors))"

definition read_words :: "filesystem \<Rightarrow> string \<Rightarrow> (string list \<times> string list) result" where
  "read_words fs filename =
     (case fs filename of
        None \<Rightarrow> SysExit (''ERROR: File not found: '' @ filename) 1
      | Some file \<Rightarrow> Ok (foldl read_words_step ([], []) (List.enumerate 1 file)))"

definition count_frequencies :: "string list \<Rightarrow> (string, int) dict" where
  "count_frequencies words = foldl count_step [] words"

definition build_report :: "string \<Rightarrow> (string, int) dict \<Rightarrow> int \<Rightarrow> real \<Rightarrow> line list" where
  "build_report filename freq grand_total elapsed =
     (let file_tag = splitext_root (basename filename)
      in [[Txt ''Row Labels'', Txt [CHR 0x09], Txt ''Count of '', Txt file_tag]]
         @ map (\<lambda>(word, cnt). [Txt word, Txt [CHR 0x09], Txt (str_int cnt)]) freq
         @ [[Txt ''Grand Total'', Txt [CHR 0x09], Txt (str_int grand_total)],
            [Txt ''Elapsed time (s): '', Flt elapsed]])"

definition wordcount_RESULT_FILE :: string where
  "wordcount_RESULT_FILE = ''WordCountResults.txt''"

definition wordcount_main :: "filesystem \<Rightarrow> real \<Rightarrow> string list \<Rightarrow> outcome" where
  "wordcount_main fs elapsed argv =
     (if length argv \<noteq> 2 then
        \<lparr>console = [[Txt ''Usage: python wordCount.py fileWithData.txt'']],
         exit_status = 1, saved = None\<rparr>
      else
        let filename = argv ! 1 in
        case read_words fs filename of
          SysExit msg status \<Rightarrow> \<lparr>console = [[Txt msg]], exit_status = status, saved = None\<rparr>
        | Ok (words, errors) \<Rightarrow>
            let printed = map (\<lambda>e. [Txt ''ERROR: '', Txt e]) errors in
            if length words = 0 then
              \<lparr>console = printed @ [[Txt ''ERROR: No words found in the input file.'']],
               exit_status = 1, saved = None\<rparr>
            else
              let freq = count_frequencies words;
                  report = build_report filename freq (int (length words)) elapsed
              in \<lparr>console = printed @ report @ [[]],
                  exit_status = 0, saved = Some (wordcount_RESULT_FILE, report)\<rparr>)"

section \<open>Reference notions for the properties\<close>

text \<open>
  The renderings the properties are stated against. \<open>zfill w s\<close> pads a digit string
  with zeros on the left to \<open>w\<close> characters; \<open>fixed_digits b w n\<close> is the numeral of
  \<open>n\<close> in base \<open>b\<close> with exactly \<open>w\<close> digits; \<open>bits_msb w n\<close> and
  \<open>nibbles_msb w n\<close> read the \<open>w\<close> low bits (groups of four bits) of the unbounded two's
  complement integer \<open>n\<close>, most significant first; \<open>word_bits\<close> and \<open>word_nibbles\<close>
  read a machine word of fixed length in the same way.
\<close>

definition zfill :: "nat \<Rightarrow> string \<Rightarrow> string" where
  "zfill w s = replicate (w - length s) CHR ''0'' @ s"

fun fixed_digits :: "int \<Rightarrow> nat \<Rightarrow> int \<Rightarrow> string" where
  "fixed_digits b 0 n = []"
| "fixed_digits b (Suc w) n = fixed_digits b w (n div b) @ [HEX_DIGITS ! nat (n mod b)]"

text \<open>
  \<open>numeral_value b s\<close> reads a digit string in base \<open>b\<close>, as \<^verbatim>\<open>int(s, b)\<close> does: a
  decimal digit counts its value and a capital letter 10 more than its place in the
  alphabet.
\<close>

definition digit_value :: "char \<Rightarrow> int" where
  "digit_value c =
     (let n = int (of_char c :: nat) in if 48 \<le> n \<and> n \<le> 57 then n - 48 else n - 55)"

definition numeral_value :: "int \<Rightarrow> string \<Rightarrow> int" where
  "numeral_value b s = foldl (\<lambda>n c. b * n + digit_value c) 0 s"

definition word_bits :: "'a::len word \<Rightarrow> string" where
  "word_bits x = map (\<lambda>i. if bit x i then CHR ''1'' else CHR ''0'') (rev [0..<LENGTH('a)])"

definition word_nibbles :: "'a::len word \<Rightarrow> string" where
  "word_nibbles x =
     map (\<lambda>i. HEX_DIGITS ! unat (take_bit 4 (drop_bit (4 * i) x))) (rev [0..<LENGTH('a) div 4])"

definition bits_msb :: "nat \<Rightarrow> int \<Rightarrow> string" where
  "bits_msb w n = map (\<lambda>i. if bit n i then CHR ''1'' else CHR ''0'') (rev [0..<w])"

definition nibbles_msb :: "nat \<Rightarrow> int \<Rightarrow> string" where
  "nibbles_msb w n = map (\<lambda>i. HEX_DIGITS ! nat (take_bit 4 (drop_bit (4 * i) n))) (rev [0..<w])"

text \<open>
  \<open>first_occurrences xs\<close> keeps the first occurrence of every element of \<open>xs\<close>, in the
  order of \<open>xs\<close>. \<open>max_frequency xs\<close> is the largest number of occurrences of an element
  and \<open>most_frequent xs\<close> the elements that occur that often.
\<close>

primrec first_occurrences :: "'a list \<Rightarrow> 'a list" where
  "first_occurrences [] = []"
| "first_occurrences (x # xs) = x # removeAll x (first_occurrences xs)"

definition max_frequency :: "'a list \<Rightarrow> nat" where
  "max_frequency xs = Max (set (map (count_list xs) xs))"

definition most_frequent :: "'a list \<Rightarrow> 'a list" where
  "most_frequent xs = filter (\<lambda>x. count_list xs x = max_frequency xs) xs"

definition sum_squared_deviations :: "real list \<Rightarrow> real \<Rightarrow> real" where
  "sum_squared_deviations xs m = (\<Sum>x\<leftarrow>xs. (x - m)\<^sup>2)"

text \<open>\<open>unsigned x\<close> forgets the sign of a zero.\<close>

fun unsigned :: "pyfloat \<Rightarrow> pyfloat" where
  "unsigned NegZero = Fin 0"
| "unsigned x = x"

text \<open>
  The statistics the report is compared with: the sample variance divides the sum of the
  squared deviations from the arithmetic mean by \<open>n - 1\<close> (and is 0 below two samples),
  the population variance divides it by \<open>n\<close>. \<open>printed_after label report\<close> is the value
  that follows \<open>label\<close> on the first line of the report made of that label and one
  value; \<open>saved_report\<close> is the text a run wrote to its result file (empty when it wrote
  none). \<open>statistics_scenario\<close> is a file system whose only file, \<^verbatim>\<open>data.txt\<close>, holds
  the lines 1, 2, 2 and 4.
\<close>

definition arithmetic_mean :: "real list \<Rightarrow> real" where
  "arithmetic_mean xs = sum_list xs / real (length xs)"

definition sample_variance :: "real list \<Rightarrow> real" where
  "sample_variance xs =
     (if length xs < 2 then 0
      else sum_squared_deviations xs (arithmetic_mean xs) / (real (length xs) - 1))"

definition population_variance :: "real list \<Rightarrow> real" where
  "population_variance xs = sum_squared_deviations xs (arithmetic_mean xs) / real (length xs)"

fun printed_after :: "string \<Rightarrow> line list \<Rightarrow> frag option" where
  "printed_after label ([Txt t, v] # ls) = (if t = label then Some v else printed_after label ls)"
| "printed_after label (l # ls) = printed_after label ls"
| "printed_after label [] = None"

definition saved_report :: "error + outcome \<Rightarrow> line list" where
  "saved_report r =
     (case r of
        Inl e \<Rightarrow> []
      | Inr out \<Rightarrow> (case saved out of None \<Rightarrow> [] | Some (name, report) \<Rightarrow> report))"

definition statistics_scenario :: filesystem where
  "statistics_scenario path =
     (if path = ''data.txt'' then Some (map (\<lambda>s. s @ [CHR 0x0A]) [''1'', ''2'', ''2'', ''4''])
      else None)"

text \<open>\<open>join sep parts\<close> is \<^verbatim>\<open>sep.join(parts)\<close>: the parts with \<open>sep\<close> between them.\<close>

fun join :: "string \<Rightarrow> string list \<Rightarrow> string" where
  "join sep [] = []"
| "join sep [p] = p"
| "join sep (p # q # ps) = p @ sep @ join sep (q # ps)"

text \<open>
  The tokens of the word-count utility: \<open>token_of part\<close> is the token a part of a line
  becomes, its alphanumeric characters in lower case or (blank) when there is none;
  \<open>line_words line\<close> are the tokens of the parts between the single spaces of a line
  without its newline; \<open>blank_line\<close> holds for a line that is empty once trimmed, and
  \<open>skipped_message\<close> is the error entry of such a line, given with its number.
\<close>

definition token_of :: "string \<Rightarrow> string" where
  "token_of part =
     (let kept = concat (map lower (filter isalnum part))
      in if kept = [] then ''(blank)'' else kept)"

definition blank_line :: "string \<Rightarrow> bool" where
  "blank_line line = (strip (rstrip_chars line [CHR 0x0A]) = [])"

definition line_words :: "string \<Rightarrow> string list" where
  "line_words line = map token_of (split (rstrip_chars line [CHR 0x0A]) CHR '' '')"

definition skipped_message :: "nat \<times> string \<Rightarrow> string" where
  "skipped_message entry = ''Line '' @ str_int (int (fst entry)) @ '': empty line (skipped)''"

section \<open>Properties of convertNumbers.py\<close>

lemma range_bits: "py_range 9 (- 1) (- 1) = [9,8,7,6,5,4,3,2,1,0]"
  by (simp add: py_range_def upt_rec)

lemma range_nibbles: "py_range 36 (- 1) (- 4) = [36,32,28,24,20,16,12,8,4,0]"
  by (simp add: py_range_def upt_rec)

lemma foldl_append_map: "foldl (\<lambda>acc i. acc @ [f i]) acc0 xs = acc0 @ map f xs"
  by (induction xs arbitrary: acc0) simp_all

lemma str_int_bit: "str_int (of_bool b) = (if b then ''1'' else ''0'')"
  by (simp add: str_int_def str_nat.simps DEC_DIGITS_def)

lemma and_one_int: "(x::int) AND 1 = of_bool (odd x)"
  by (simp add: and_one_eq mod_2_eq_odd)

lemma and_15_int: "(x::int) AND 15 = take_bit 4 x"
  using take_bit_eq_mask [of 4 x] by (simp add: mask_eq_exp_minus_1)

lemma upt_10: "[0..<10] = [0,1,2,3,4,5,6,7,8,9]"
  by (simp add: upt_rec)

lemma to_binary_neg: "v < 0 \<Longrightarrow> to_binary v = bits_msb 10 (2 ^ 10 + v)"
  by (simp add: to_binary_def Let_def range_bits foldl_append_map and_one_int str_int_bit
      bit_iff_odd_drop_bit bits_msb_def upt_10)

lemma to_hex_neg: "v < 0 \<Longrightarrow> to_hex v = nibbles_msb 10 (2 ^ 40 + v)"
  by (simp add: to_hex_def Let_def range_nibbles foldl_append_map and_15_int nibbles_msb_def upt_10)

lemma bits_msb_take_bit: "bits_msb w (take_bit w n) = bits_msb w n"
  by (simp add: bits_msb_def bit_take_bit_iff)

lemma nibbles_msb_take_bit: "nibbles_msb w (take_bit (4 * w) n) = nibbles_msb w n"
proof -
  have "take_bit 4 (drop_bit (4 * i) (take_bit (4 * w) n)) = take_bit 4 (drop_bit (4 * i) n)"
    if "i < w" for i
  proof -
    from that have "min (4 + 4 * i) (4 * w) = 4 + 4 * i" by simp
    then show ?thesis
      by (simp add: take_bit_drop_bit)
  qed
  then show ?thesis
    by (simp add: nibbles_msb_def)
qed

lemma fixed_digits_bits: "fixed_digits 2 w n = bits_msb w n"
proof (induction w arbitrary: n)
  case 0
  show ?case by (simp add: bits_msb_def)
next
  case (Suc w)
  have "[0..<Suc w] = 0 # map Suc [0..<w]"
    by (simp add: upt_conv_Cons map_Suc_upt del: upt_Suc)
  then have "bits_msb (Suc w) n = bits_msb w (n div 2) @ [if bit n 0 then CHR ''1'' else CHR ''0'']"
    by (simp add: bits_msb_def rev_map bit_Suc comp_def del: upt_Suc)
  moreover have "HEX_DIGITS ! nat (n mod 2) = (if bit n 0 then CHR ''1'' else CHR ''0'')"
    by (cases "odd n") (simp_all add: bit_0 HEX_DIGITS_def odd_iff_mod_2_eq_one even_iff_mod_2_eq_zero)
  ultimately show ?case
    by (simp add: Suc.IH)
qed

lemma fixed_digits_nibbles: "fixed_digits 16 w n = nibbles_msb w n"
proof (induction w arbitrary: n)
  case 0
  show ?case by (simp add: nibbles_msb_def)
next
  case (Suc w)
  have "[0..<Suc w] = 0 # map Suc [0..<w]"
    by (simp add: upt_conv_Cons map_Suc_upt del: upt_Suc)
  moreover have "drop_bit (4 * Suc i) n = drop_bit (4 * i) (n div 16)" for i
  proof -
    have "drop_bit (4 * i) (drop_bit 4 n) = drop_bit (4 * Suc i) n"
      by (simp only: drop_bit_drop_bit) (simp add: ac_simps)
    then show ?thesis
      by (simp add: drop_bit_eq_div [of 4])
  qed
  ultimately have "nibbles_msb (Suc w) n = nibbles_msb w (n div 16) @ [HEX_DIGITS ! nat (take_bit 4 n)]"
    by (simp add: nibbles_msb_def rev_map comp_def del: upt_Suc mult_Suc_right)
  moreover have "take_bit 4 n = n mod 16"
    by (simp add: take_bit_eq_mod)
  ultimately show ?case
    by (simp add: Suc.IH)
qed

lemma to_binary_loop_acc: "to_binary_loop n acc = acc @ to_binary_loop n []"
proof (induction "nat n" arbitrary: n acc rule: less_induct)
  case less
  show ?case
  proof (cases "n > 0")
    case True
    then have smaller: "nat (n div 2) < nat n"
      by simp
    have "to_binary_loop n acc = to_binary_loop (n div 2) (acc @ [str_int (n mod 2)])"
      using True by (simp add: to_binary_loop.simps [of n])
    also have "\<dots> = acc @ [str_int (n mod 2)] @ to_binary_loop (n div 2) []"
      using less [OF smaller, of "acc @ [str_int (n mod 2)]"] by simp
    also have "[str_int (n mod 2)] @ to_binary_loop (n div 2) [] = to_binary_loop n []"
      using True less [OF smaller, of "[str_int (n mod 2)]"]
      by (simp add: to_binary_loop.simps [of n "[]"])
    finally show ?thesis .
  next
    case False
    then show ?thesis
      by (simp add: to_binary_loop.simps [of n])
  qed
qed

lemma binary_digit: "str_int (n mod 2) = [HEX_DIGITS ! nat (n mod 2)]"
proof -
  have "n mod 2 = 0 \<or> n mod 2 = 1"
    by presburger
  then show ?thesis
    by (auto simp: str_int_def str_nat.simps DEC_DIGITS_def HEX_DIGITS_def)
qed

lemma to_binary_loop_pos:
  "n > 0 \<Longrightarrow> concat (rev (to_binary_loop n [])) =
     concat (rev (to_binary_loop (n div 2) [])) @ [HEX_DIGITS ! nat (n mod 2)]"
  using to_binary_loop_acc [of "n div 2" "[str_int (n mod 2)]"]
  by (simp add: to_binary_loop.simps [of n "[]"] binary_digit)

lemma to_binary_loop_zero: "to_binary_loop 0 [] = []"
  by (simp add: to_binary_loop.simps)

lemma to_binary_loop_fixed:
  "0 \<le> n \<Longrightarrow> n < 2 ^ w \<Longrightarrow>
     length (concat (rev (to_binary_loop n []))) \<le> w \<and>
     zfill w (concat (rev (to_binary_loop n []))) = fixed_digits 2 w n"
proof (induction w arbitrary: n)
  case 0
  then have "n = 0" by simp
  then show ?case by (simp add: to_binary_loop_zero zfill_def)
next
  case (Suc w)
  show ?case
  proof (cases "n = 0")
    case True
    have "zfill w (concat (rev (to_binary_loop 0 []))) = fixed_digits 2 w 0"
      using Suc.IH [of 0] by simp
    then have "fixed_digits 2 w 0 = replicate w CHR ''0''"
      by (simp add: to_binary_loop_zero zfill_def)
    then show ?thesis
      using True by (simp add: to_binary_loop_zero zfill_def HEX_DIGITS_def replicate_append_same)
  next
    case False
    with Suc.prems have pos: "n > 0" by simp
    from Suc.prems have "0 \<le> n div 2" "n div 2 < 2 ^ w"
      by simp_all
    from Suc.IH [OF this] pos show ?thesis
      by (simp add: to_binary_loop_pos zfill_def Suc_diff_le)
  qed
qed

lemma to_binary_zfill:
  assumes "0 \<le> n" "n < 2 ^ w" "0 < w"
  shows "zfill w (to_binary n) = fixed_digits 2 w n"
proof (cases "n = 0")
  case True
  have "zfill w (concat (rev (to_binary_loop 0 []))) = fixed_digits 2 w 0"
    using to_binary_loop_fixed [of 0 w] by simp
  then have "fixed_digits 2 w 0 = replicate w CHR ''0''"
    by (simp add: to_binary_loop_zero zfill_def)
  moreover have "replicate (w - 1) CHR ''0'' @ ''0'' = replicate w CHR ''0''"
    using \<open>0 < w\<close> by (cases w) (simp_all add: replicate_append_same)
  ultimately show ?thesis
    using True by (simp add: to_binary_def zfill_def)
next
  case False
  with assms show ?thesis
    using to_binary_loop_fixed [of n w] by (simp add: to_binary_def)
qed

lemma to_hex_loop_acc: "to_hex_loop n acc = acc @ to_hex_loop n []"
proof (induction "nat n" arbitrary: n acc rule: less_induct)
  case less
  show ?case
  proof (cases "n > 0")
    case True
    then have smaller: "nat (n div 16) < nat n"
      by simp
    let ?d = "[HEX_DIGITS ! nat (n mod 16)]"
    have "to_hex_loop n acc = to_hex_loop (n div 16) (acc @ [?d])"
      using True by (simp add: to_hex_loop.simps [of n])
    also have "\<dots> = acc @ [?d] @ to_hex_loop (n div 16) []"
      using less [OF smaller, of "acc @ [?d]"] by simp
    also have "[?d] @ to_hex_loop (n div 16) [] = to_hex_loop n []"
      using True less [OF smaller, of "[?d]"]
      by (simp add: to_hex_loop.simps [of n "[]"])
    finally show ?thesis .
  next
    case False
    then show ?thesis
      by (simp add: to_hex_loop.simps [of n])
  qed
qed

lemma to_hex_loop_pos:
  "n > 0 \<Longrightarrow> concat (rev (to_hex_loop n [])) =
     concat (rev (to_hex_loop (n div 16) [])) @ [HEX_DIGITS ! nat (n mod 16)]"
  using to_hex_loop_acc [of "n div 16" "[[HEX_DIGITS ! nat (n mod 16)]]"]
  by (simp add: to_hex_loop.simps [of n "[]"])

lemma to_hex_loop_zero: "to_hex_loop 0 [] = []"
  by (simp add: to_hex_loop.simps)

lemma to_hex_loop_fixed:
  "0 \<le> n \<Longrightarrow> n < 16 ^ w \<Longrightarrow>
     length (concat (rev (to_hex_loop n []))) \<le> w \<and>
     zfill w (concat (rev (to_hex_loop n []))) = fixed_digits 16 w n"
proof (induction w arbitrary: n)
  case 0
  then have "n = 0" by simp
  then show ?case by (simp add: to_hex_loop_zero zfill_def)
next
  case (Suc w)
  show ?case
  proof (cases "n = 0")
    case True
    have "zfill w (concat (rev (to_hex_loop 0 []))) = fixed_digits 16 w 0"
      using Suc.IH [of 0] by simp
    then have "fixed_digits 16 w 0 = replicate w CHR ''0''"
      by (simp add: to_hex_loop_zero zfill_def)
    then show ?thesis
      using True by (simp add: to_hex_loop_zero zfill_def HEX_DIGITS_def replicate_append_same)
  next
    case False
    with Suc.prems have pos: "n > 0" by simp
    from Suc.prems have "0 \<le> n div 16" "n div 16 < 16 ^ w"
      by simp_all
    from Suc.IH [OF this] pos show ?thesis
      by (simp add: to_hex_loop_pos zfill_def Suc_diff_le)
  qed
qed

lemma to_hex_zfill:
  assumes "0 \<le> n" "n < 16 ^ w" "0 < w"
  shows "zfill w (to_hex n) = fixed_digits 16 w n"
proof (cases "n = 0")
  case True
  have "zfill w (concat (rev (to_hex_loop 0 []))) = fixed_digits 16 w 0"
    using to_hex_loop_fixed [of 0 w] by simp
  then have "fixed_digits 16 w 0 = replicate w CHR ''0''"
    by (simp add: to_hex_loop_zero zfill_def)
  moreover have "replicate (w - 1) CHR ''0'' @ ''0'' = replicate w CHR ''0''"
    using \<open>0 < w\<close> by (cases w) (simp_all add: replicate_append_same)
  ultimately show ?thesis
    using True by (simp add: to_hex_def zfill_def)
next
  case False
  with assms show ?thesis
    using to_hex_loop_fixed [of n w] by (simp add: to_hex_def)
qed

lemma to_binary_wraps: "v < 0 \<Longrightarrow> to_binary v = zfill 10 (to_binary (v mod 2 ^ 10))"
proof -
  assume neg: "v < 0"
  have "take_bit 10 (2 ^ 10 + v) = v mod 2 ^ 10"
    by (simp add: take_bit_eq_mod)
  then have "to_binary v = bits_msb 10 (v mod 2 ^ 10)"
    using neg bits_msb_take_bit [of 10 "2 ^ 10 + v"] by (simp add: to_binary_neg)
  also have "\<dots> = zfill 10 (to_binary (v mod 2 ^ 10))"
    using to_binary_zfill [of "v mod 2 ^ 10" 10] by (simp add: fixed_digits_bits)
  finally show ?thesis .
qed

lemma to_hex_wraps: "v < 0 \<Longrightarrow> to_hex v = zfill 10 (to_hex (v mod 2 ^ 40))"
proof -
  assume neg: "v < 0"
  have "take_bit 40 (2 ^ 40 + v) = v mod 2 ^ 40"
    by (simp add: take_bit_eq_mod)
  then have "to_hex v = nibbles_msb 10 (v mod 2 ^ 40)"
    using neg nibbles_msb_take_bit [of 10 "2 ^ 40 + v"] by (simp add: to_hex_neg)
  also have "\<dots> = zfill 10 (to_hex (v mod 2 ^ 40))"
    using to_hex_zfill [of "v mod 2 ^ 40" 10] by (simp add: fixed_digits_nibbles)
  finally show ?thesis .
qed

lemma bits_msb_chars: "length (bits_msb w n) = w \<and> set (bits_msb w n) \<subseteq> {CHR ''0'', CHR ''1''}"
  by (auto simp: bits_msb_def)

lemma nibbles_msb_chars: "length (nibbles_msb w n) = w \<and> set (nibbles_msb w n) \<subseteq> set HEX_DIGITS"
proof -
  have "HEX_DIGITS ! nat (take_bit 4 k) \<in> set HEX_DIGITS" for k :: int
  proof -
    have "0 \<le> take_bit 4 k" "take_bit 4 k < 16"
      using take_bit_int_less_exp [of 4 k] by simp_all
    then have "nat (take_bit 4 k) < length HEX_DIGITS"
      by (simp add: HEX_DIGITS_def)
    then show ?thesis
      by (rule nth_mem)
  qed
  then show ?thesis
    by (auto simp: nibbles_msb_def)
qed

lemma digit_value_hex: "0 \<le> d \<Longrightarrow> d < 16 \<Longrightarrow> digit_value (HEX_DIGITS ! nat d) = d"
proof -
  assume "0 \<le> d" "d < 16"
  then have "d = 0 \<or> d = 1 \<or> d = 2 \<or> d = 3 \<or> d = 4 \<or> d = 5 \<or> d = 6 \<or> d = 7
      \<or> d = 8 \<or> d = 9 \<or> d = 10 \<or> d = 11 \<or> d = 12 \<or> d = 13 \<or> d = 14 \<or> d = 15"
    by arith
  then show ?thesis
    by (elim disjE) (simp_all add: HEX_DIGITS_def digit_value_def)
qed

lemma numeral_value_snoc: "numeral_value b (s @ [c]) = b * numeral_value b s + digit_value c"
  by (simp add: numeral_value_def)

lemma numeral_value_fixed_digits:
  "0 \<le> n \<Longrightarrow> 2 \<le> b \<Longrightarrow> b \<le> 16 \<Longrightarrow> numeral_value b (fixed_digits b w n) = n mod b ^ w"
proof (induction w arbitrary: n)
  case 0
  then show ?case by (simp add: numeral_value_def)
next
  case (Suc w)
  from Suc.prems have d: "0 \<le> n mod b" "n mod b < 16"
    by (auto intro: order_less_le_trans [of _ b])
  from Suc.prems have "0 \<le> n div b"
    by (simp add: pos_imp_zdiv_nonneg_iff)
  with Suc have "numeral_value b (fixed_digits b w (n div b)) = n div b mod b ^ w"
    by simp
  moreover have "n mod (b * b ^ w) = b * (n div b mod b ^ w) + n mod b"
    using Suc.prems by (intro zmod_zmult2_eq) simp
  ultimately show ?case
    using d by (simp add: numeral_value_snoc digit_value_hex)
qed

lemma to_binary_fixed: "v < 0 \<Longrightarrow> to_binary v = fixed_digits 2 10 (v mod 2 ^ 10)"
proof -
  assume neg: "v < 0"
  have "take_bit 10 (2 ^ 10 + v) = v mod 2 ^ 10"
    by (simp add: take_bit_eq_mod)
  then have "to_binary v = bits_msb 10 (v mod 2 ^ 10)"
    using neg bits_msb_take_bit [of 10 "2 ^ 10 + v"] by (simp add: to_binary_neg)
  then show ?thesis
    by (simp add: fixed_digits_bits)
qed

lemma to_hex_fixed: "v < 0 \<Longrightarrow> to_hex v = fixed_digits 16 10 (v mod 2 ^ 40)"
proof -
  assume neg: "v < 0"
  have "take_bit 40 (2 ^ 40 + v) = v mod 2 ^ 40"
    by (simp add: take_bit_eq_mod)
  then have "to_hex v = nibbles_msb 10 (v mod 2 ^ 40)"
    using neg nibbles_msb_take_bit [of 10 "2 ^ 40 + v"] by (simp add: to_hex_neg)
  then show ?thesis
    by (simp add: fixed_digits_nibbles)
qed

text \<open>
  Claim C9. For every negative integer, of any magnitude, \<^const>\<open>to_binary\<close> returns exactly
  10 characters, each 0 or 1, which are the 10-digit binary numeral of \<open>v mod 2^10\<close>:
  read in base 2 they give \<open>v mod 2^10\<close>. \<^const>\<open>to_hex\<close> returns exactly 10 characters
  among the digits and the capital letters A to F, which are the 10-digit hexadecimal
  numeral of \<open>v mod 2^40\<close>: read in base 16 they give \<open>v mod 2^40\<close>. A negative value
  outside the width wraps modulo the width: the result is neither longer nor shorter,
  and no branch raises. Both results are also the rendering the function itself gives
  to the non-negative number \<open>v mod 2^10\<close> (\<open>v mod 2^40\<close>), padded with zeros.
\<close>

theorem negative_encoding_wraps:
  assumes "v < 0"
  shows "to_binary v = fixed_digits 2 10 (v mod 2 ^ 10)
       \<and> numeral_value 2 (to_binary v) = v mod 2 ^ 10
       \<and> length (to_binary v) = 10
       \<and> set (to_binary v) \<subseteq> {CHR ''0'', CHR ''1''}
       \<and> to_hex v = fixed_digits 16 10 (v mod 2 ^ 40)
       \<and> numeral_value 16 (to_hex v) = v mod 2 ^ 40
       \<and> length (to_hex v) = 10
       \<and> set (to_hex v) \<subseteq> set ''0123456789ABCDEF''
       \<and> to_binary v = zfill 10 (to_binary (v mod 2 ^ 10))
       \<and> to_hex v = zfill 10 (to_hex (v mod 2 ^ 40))"
proof -
  have "numeral_value 2 (fixed_digits 2 10 (v mod 2 ^ 10)) = v mod 2 ^ 10 mod 2 ^ 10"
    by (rule numeral_value_fixed_digits) simp_all
  moreover have "numeral_value 16 (fixed_digits 16 10 (v mod 2 ^ 40)) = v mod 2 ^ 40 mod 16 ^ 10"
    by (rule numeral_value_fixed_digits) simp_all
  moreover have "(v mod 2 ^ 40) mod 16 ^ 10 = v mod 2 ^ 40"
    by simp
  ultimately have "numeral_value 2 (to_binary v) = v mod 2 ^ 10"
    and "numeral_value 16 (to_hex v) = v mod 2 ^ 40"
    using assms by (simp_all add: to_binary_fixed to_hex_fixed)
  moreover have "set HEX_DIGITS = set ''0123456789ABCDEF''"
    by (simp add: HEX_DIGITS_def)
  ultimately show ?thesis
    using assms bits_msb_chars [of 10 "2 ^ 10 + v"] nibbles_msb_chars [of 10 "2 ^ 40 + v"]
      to_binary_wraps [of v] to_hex_wraps [of v] to_binary_fixed [of v] to_hex_fixed [of v]
    by (simp add: to_binary_neg to_hex_neg)
qed

lemma word_bits_of_int: "word_bits (word_of_int v :: 10 word) = bits_msb 10 v"
  by (simp add: word_bits_def bits_msb_def bit_word_of_int_iff)

lemma word_nibbles_of_int: "word_nibbles (word_of_int v :: 40 word) = nibbles_msb 10 v"
proof -
  have "unat (take_bit 4 (drop_bit (4 * i) (word_of_int v :: 40 word))) = nat (take_bit 4 (drop_bit (4 * i) v))"
    if "i < 10" for i
  proof -
    have "take_bit 4 (drop_bit (4 * i) (word_of_int v :: 40 word)) = word_of_int (take_bit 4 (drop_bit (4 * i) v))"
      using that by (intro bit_word_eqI) (auto simp: bit_simps)
    moreover have "take_bit 40 (take_bit 4 (drop_bit (4 * i) v)) = take_bit 4 (drop_bit (4 * i) v)"
      by simp
    ultimately show ?thesis
      by (simp add: unat_eq_nat_uint uint_word_of_int_eq del: take_bit_take_bit)
  qed
  then show ?thesis
    by (simp add: word_nibbles_def nibbles_msb_def)
qed

lemma to_binary_loop_length:
  "2 ^ w \<le> n \<Longrightarrow> n < 2 ^ Suc w \<Longrightarrow> length (concat (rev (to_binary_loop n []))) = Suc w"
proof (induction w arbitrary: n)
  case 0
  then have "n = 1" by simp
  then show ?case
    by (simp add: to_binary_loop_pos to_binary_loop_zero)
next
  case (Suc w)
  define x :: int where "x = 2 ^ w"
  have "x > 0"
    by (simp add: x_def)
  moreover from Suc.prems have "2 * x \<le> n" "n < 2 * (2 * x)"
    by (simp_all add: x_def)
  ultimately have "x \<le> n div 2 \<and> n div 2 < 2 * x \<and> n > 0"
    by arith
  then have "2 ^ w \<le> n div 2" "n div 2 < 2 ^ Suc w" "n > 0"
    by (simp_all add: x_def)
  with Suc.IH [of "n div 2"] show ?case
    by (simp add: to_binary_loop_pos)
qed

lemma to_hex_loop_length:
  "16 ^ w \<le> n \<Longrightarrow> n < 16 ^ Suc w \<Longrightarrow> length (concat (rev (to_hex_loop n []))) = Suc w"
proof (induction w arbitrary: n)
  case 0
  then have "n > 0" "n div 16 = 0"
    by simp_all
  then show ?case
    by (simp add: to_hex_loop_pos to_hex_loop_zero)
next
  case (Suc w)
  define x :: int where "x = 16 ^ w"
  have "x > 0"
    by (simp add: x_def)
  moreover from Suc.prems have "16 * x \<le> n" "n < 16 * (16 * x)"
    by (simp_all add: x_def)
  ultimately have "x \<le> n div 16 \<and> n div 16 < 16 * x \<and> n > 0"
    by arith
  then have "16 ^ w \<le> n div 16" "n div 16 < 16 ^ Suc w" "n > 0"
    by (simp_all add: x_def)
  with Suc.IH [of "n div 16"] show ?case
    by (simp add: to_hex_loop_pos)
qed

lemma to_binary_in_range: "- (2 ^ 9) \<le> v \<Longrightarrow> v < 0 \<Longrightarrow> to_binary v = to_binary (2 ^ 10 + v)"
proof -
  assume range: "- (2 ^ 9) \<le> v" "v < 0"
  let ?u = "2 ^ 10 + v"
  from range have u: "2 ^ 9 \<le> ?u" "?u < 2 ^ Suc 9"
    by simp_all
  then have "?u mod 2 ^ 10 = ?u"
    by (intro mod_pos_pos_trivial) simp_all
  then have "v mod 2 ^ 10 = ?u"
    by simp
  note u = u this
  from to_binary_loop_length [OF u(1,2)] u(1) have "length (to_binary ?u) = 10"
    by (simp add: to_binary_def)
  then show ?thesis
    using range(2) u(3) by (simp add: to_binary_wraps zfill_def)
qed

lemma to_hex_in_range: "- (2 ^ 39) \<le> v \<Longrightarrow> v < 0 \<Longrightarrow> to_hex v = to_hex (2 ^ 40 + v)"
proof -
  assume range: "- (2 ^ 39) \<le> v" "v < 0"
  let ?u = "2 ^ 40 + v"
  from range have u: "16 ^ 9 \<le> ?u" "?u < 16 ^ Suc 9"
    by simp_all
  then have "?u mod 2 ^ 40 = ?u"
    by (intro mod_pos_pos_trivial) simp_all
  then have "v mod 2 ^ 40 = ?u"
    by simp
  note u = u this
  from to_hex_loop_length [OF u(1,2)] u(1) have "length (to_hex ?u) = 10"
    by (simp add: to_hex_def)
  then show ?thesis
    using range(2) u(3) by (simp add: to_hex_wraps zfill_def)
qed

lemma minus_one_binary: "to_binary (- 1) = ''1111111111''"
  by code_simp

lemma minus_one_hex: "to_hex (- 1) = ''FFFFFFFFFF''"
  by code_simp

text \<open>
  Claim C2. For every negative integer \<open>v\<close>, \<^const>\<open>to_binary\<close> returns the bits 9 to 0
  of \<open>unsigned = 2^10 + v\<close>, exactly 10 characters, which are the bits of \<open>v\<close> as a
  10-bit two's complement word; when \<open>v\<close> fits in 10 bits (\<open>- 2^9 \<le> v\<close>) this is the plain
  binary numeral of \<open>unsigned\<close>. \<^const>\<open>to_hex\<close> returns the ten hexadecimal digits of
  \<open>unsigned = 2^40 + v\<close>, which are those of \<open>v\<close> as a 40-bit two's complement word,
  and for \<open>- 2^39 \<le> v\<close> the plain hexadecimal numeral of \<open>unsigned\<close>. In particular -1
  gives 1111111111 and FFFFFFFFFF.
\<close>

theorem negative_twos_complement:
  "(v < 0 \<longrightarrow>
        to_binary v = bits_msb 10 (2 ^ 10 + v)
      \<and> to_binary v = word_bits (word_of_int v :: 10 word)
      \<and> length (to_binary v) = 10
      \<and> (- (2 ^ 9) \<le> v \<longrightarrow> to_binary v = to_binary (2 ^ 10 + v))
      \<and> to_hex v = nibbles_msb 10 (2 ^ 40 + v)
      \<and> to_hex v = word_nibbles (word_of_int v :: 40 word)
      \<and> length (to_hex v) = 10
      \<and> (- (2 ^ 39) \<le> v \<longrightarrow> to_hex v = to_hex (2 ^ 40 + v)))
   \<and> to_binary (- 1) = ''1111111111''
   \<and> to_hex (- 1) = ''FFFFFFFFFF''"
proof (intro conjI impI)
  assume neg: "v < 0"
  show b: "to_binary v = bits_msb 10 (2 ^ 10 + v)"
    using neg by (rule to_binary_neg)
  show h: "to_hex v = nibbles_msb 10 (2 ^ 40 + v)"
    using neg by (rule to_hex_neg)
  have "take_bit 10 (2 ^ 10 + v) = take_bit 10 v"
    by (simp add: take_bit_eq_mod)
  then have "bits_msb 10 (2 ^ 10 + v) = bits_msb 10 v"
    using bits_msb_take_bit [of 10 "2 ^ 10 + v"] bits_msb_take_bit [of 10 v] by simp
  then show "to_binary v = word_bits (word_of_int v :: 10 word)"
    by (simp add: b word_bits_of_int)
  have "take_bit 40 (2 ^ 40 + v) = take_bit 40 v"
    by (simp add: take_bit_eq_mod)
  then have "nibbles_msb 10 (2 ^ 40 + v) = nibbles_msb 10 v"
    using nibbles_msb_take_bit [of 10 "2 ^ 40 + v"] nibbles_msb_take_bit [of 10 v] by simp
  then show "to_hex v = word_nibbles (word_of_int v :: 40 word)"
    by (simp add: h word_nibbles_of_int)
  show "length (to_binary v) = 10"
    using bits_msb_chars [of 10 "2 ^ 10 + v"] by (simp add: b)
  show "length (to_hex v) = 10"
    using nibbles_msb_chars [of 10 "2 ^ 40 + v"] by (simp add: h)
next
  assume "v < 0" "- (2 ^ 9) \<le> v"
  then show "to_binary v = to_binary (2 ^ 10 + v)"
    by (simp add: to_binary_in_range)
next
  assume "v < 0" "- (2 ^ 39) \<le> v"
  then show "to_hex v = to_hex (2 ^ 40 + v)"
    by (simp add: to_hex_in_range)
next
  show "to_binary (- 1) = ''1111111111''"
    by (rule minus_one_binary)
  show "to_hex (- 1) = ''FFFFFFFFFF''"
    by (rule minus_one_hex)
qed

theorem negative_twos_complement_witness:
  "(- 1 :: int) < 0 \<and> - (2 ^ 9) \<le> (- 1 :: int) \<and> - (2 ^ 39) \<le> (- 1 :: int)
   \<and> to_binary (- 1) = to_binary (2 ^ 10 + - 1)
   \<and> to_hex (- 1) = to_hex (2 ^ 40 + - 1)
   \<and> to_binary (- 1) = word_bits (word_of_int (- 1) :: 10 word)"
proof -
  have "(- 1 :: int) < 0" "- (2 ^ 9) \<le> (- 1 :: int)" "- (2 ^ 39) \<le> (- 1 :: int)"
    by simp_all
  with negative_twos_complement [of "- 1"] show ?thesis
    by blast
qed

theorem negative_encoding_wraps_witness:
  "(- 1026 :: int) < 0
   \<and> to_binary (- 1026) = fixed_digits 2 10 (- 1026 mod 2 ^ 10)
   \<and> numeral_value 2 (to_binary (- 1026)) = - 1026 mod 2 ^ 10
   \<and> to_hex (- 1026) = fixed_digits 16 10 (- 1026 mod 2 ^ 40)
   \<and> fixed_digits 2 10 (- 1026 mod 2 ^ 10) = ''1111111110''
   \<and> fixed_digits 16 10 (- 1026 mod 2 ^ 40) = ''FFFFFFFBFE''"
proof -
  have neg: "(- 1026 :: int) < 0"
    by simp
  have b: "fixed_digits 2 10 (- 1026 mod 2 ^ 10) = ''1111111110''"
    by code_simp
  have h: "fixed_digits 16 10 (- 1026 mod 2 ^ 40) = ''FFFFFFFBFE''"
    by code_simp
  from negative_encoding_wraps [OF neg] neg b h show ?thesis
    by blast
qed

section \<open>The frequency dictionary\<close>

lemma set_first_occurrences: "set (first_occurrences xs) = set xs"
  by (induction xs) auto

lemma distinct_first_occurrences: "distinct (first_occurrences xs)"
  by (induction xs) (auto simp: distinct_removeAll)

lemma first_occurrences_snoc:
  "first_occurrences (xs @ [x]) = (if x \<in> set xs then first_occurrences xs else first_occurrences xs @ [x])"
  by (induction xs) (auto simp: set_first_occurrences)

lemma map_of_dict_set: "map_of (dict_set d k v) = (map_of d)(k \<mapsto> v)"
  by (induction d k v rule: dict_set.induct) auto

lemma keys_dict_set:
  "map fst (dict_set d k v) = (if k \<in> fst ` set d then map fst d else map fst d @ [k])"
  by (induction d k v rule: dict_set.induct) auto

lemma keys_count_step:
  "map fst (count_step d w) = (if w \<in> fst ` set d then map fst d else map fst d @ [w])"
  by (simp add: count_step_def keys_dict_set)

lemma keys_set_count_step: "fst ` set (count_step d w) = insert w (fst ` set d)"
proof -
  have "set (map fst (count_step d w)) = insert w (fst ` set d)"
    unfolding keys_count_step by auto
  then show ?thesis
    by simp
qed

lemma dict_get_count_step:
  "dict_get (count_step d w) k 0 = dict_get d k 0 + (if k = w then 1 else 0)"
  by (simp add: count_step_def dict_get_def map_of_dict_set)

lemma keys_foldl_count_step:
  "map fst (foldl count_step d ws) =
     map fst d @ filter (\<lambda>w. w \<notin> fst ` set d) (first_occurrences ws)"
proof (induction ws arbitrary: d)
  case Nil
  show ?case by simp
next
  case (Cons w ws)
  show ?case
  proof (cases "w \<in> fst ` set d")
    case True
    then have "filter (\<lambda>k. k \<notin> fst ` set d) (removeAll w (first_occurrences ws)) =
        filter (\<lambda>k. k \<notin> fst ` set d) (first_occurrences ws)"
      by (auto simp: removeAll_filter_not_eq intro: filter_cong)
    moreover from True have "insert w (fst ` set d) = fst ` set d"
      by auto
    ultimately show ?thesis
      using True by (simp add: Cons.IH keys_count_step keys_set_count_step)
  next
    case False
    have "fst ` set (count_step d w) = insert w (fst ` set d)"
      by (rule keys_set_count_step)
    moreover have "filter (\<lambda>k. k \<notin> insert w (fst ` set d)) (first_occurrences ws) =
        filter (\<lambda>k. k \<notin> fst ` set d) (removeAll w (first_occurrences ws))"
      by (auto simp: removeAll_filter_not_eq intro: filter_cong)
    ultimately show ?thesis
      using False by (simp add: Cons.IH keys_count_step)
  qed
qed

lemma dict_get_foldl_count_step:
  "dict_get (foldl count_step d ws) k 0 = dict_get d k 0 + int (count_list ws k)"
  by (induction ws arbitrary: d) (simp_all add: dict_get_count_step)

lemma distinct_keys_rebuild:
  "distinct (map fst d) \<Longrightarrow> map (\<lambda>k. (k, dict_get d k dflt)) (map fst d) = d"
proof (induction d)
  case Nil
  show ?case by simp
next
  case (Cons p d)
  obtain k v where p: "p = (k, v)" by (cases p)
  from Cons.prems p have notin: "k \<notin> fst ` set d" and dist: "distinct (map fst d)"
    by auto
  have "dict_get (p # d) k' dflt = dict_get d k' dflt" if "k' \<in> fst ` set d" for k'
    using that notin by (auto simp: dict_get_def p)
  then have "map (\<lambda>k'. (k', dict_get (p # d) k' dflt)) (map fst d) = map (\<lambda>k'. (k', dict_get d k' dflt)) (map fst d)"
    by (intro map_cong) auto
  also have "\<dots> = d"
    by (rule Cons.IH [OF dist])
  finally have "map (\<lambda>k'. (k', dict_get (p # d) k' dflt)) (map fst d) = d" .
  moreover have "dict_get (p # d) k dflt = v"
    by (simp add: p dict_get_def)
  ultimately show ?case
    by (simp add: p)
qed

lemma foldl_count_step_empty:
  "foldl count_step [] ws = map (\<lambda>w. (w, int (count_list ws w))) (first_occurrences ws)"
proof -
  let ?d = "foldl count_step [] ws"
  have keys: "map fst ?d = first_occurrences ws"
    using keys_foldl_count_step [of "[]" ws] by simp
  then have "distinct (map fst ?d)"
    by (simp add: distinct_first_occurrences)
  then have "map (\<lambda>k. (k, dict_get ?d k 0)) (map fst ?d) = ?d"
    by (rule distinct_keys_rebuild)
  moreover have "dict_get ?d k 0 = int (count_list ws k)" for k
    using dict_get_foldl_count_step [of "[]" ws k] by (simp add: dict_get_def)
  ultimately show ?thesis
    by (simp add: keys)
qed

lemma sum_counts_count_step: "sum_list (map snd (count_step d w)) = sum_list (map snd d) + 1"
proof -
  have "sum_list (map snd (dict_set d w (dict_get d w 0 + 1))) = sum_list (map snd d) + 1"
  proof (induction d)
    case Nil
    show ?case by (simp add: dict_get_def)
  next
    case (Cons p d)
    obtain k v where p: "p = (k, v)" by (cases p)
    show ?case
    proof (cases "k = w")
      case True
      then show ?thesis by (simp add: p dict_get_def)
    next
      case False
      then have "dict_get (p # d) w 0 = dict_get d w 0"
        by (simp add: p dict_get_def)
      with False Cons.IH show ?thesis
        by (simp add: p)
    qed
  qed
  then show ?thesis
    by (simp add: count_step_def)
qed

lemma sum_counts_foldl:
  "sum_list (map snd (foldl count_step d ws)) = sum_list (map snd d) + int (length ws)"
  by (induction ws arbitrary: d) (simp_all add: sum_counts_count_step)

section \<open>Properties of computeStatistics.py\<close>

lemma py_max_Max: "xs \<noteq> [] \<Longrightarrow> py_max xs = Inr (Max (set xs))"
proof (cases xs)
  case Nil
  assume "xs \<noteq> []"
  with Nil show ?thesis by simp
next
  case (Cons x ys)
  have "(\<lambda>y s. max s y) = (max :: 'a \<Rightarrow> 'a \<Rightarrow> 'a)"
    by (intro ext) (simp add: max.commute)
  then have "foldl max x ys = fold max ys x"
    by (simp add: foldl_conv_fold)
  also have "\<dots> = Max (set (x # ys))"
    by (rule Max.set_eq_fold [symmetric])
  finally show ?thesis
    by (simp only: Cons py_max.simps)
qed

lemma best_step_foldl:
  "foldl (best_step m) best d =
     (let cands = map fst (filter (\<lambda>vc. snd vc = m) d)
      in case best of
           None \<Rightarrow> if cands = [] then None else Some (Max (set cands))
         | Some b \<Rightarrow> Some (Max (set (b # cands))))"
proof (induction d arbitrary: best)
  case Nil
  show ?case by (simp split: option.split)
next
  case (Cons p d)
  obtain v c where p: "p = (v, c)" by (cases p)
  show ?case
  proof (cases "c = m")
    case False
    then have "best_step m best p = best"
      by (simp add: best_step_def p)
    with False show ?thesis
      by (simp add: Cons.IH p)
  next
    case True
    let ?cands = "map fst (filter (\<lambda>vc. snd vc = m) d)"
    show ?thesis
    proof (cases best)
      case None
      then have "best_step m best p = Some v"
        using True by (simp add: best_step_def p)
      then show ?thesis
        using True None by (simp add: Cons.IH p)
    next
      case (Some b)
      then have step: "best_step m best p = Some (max b v)"
        using True by (auto simp: best_step_def p max_def)
      have "Max (set (max b v # ?cands)) = Max (set (b # v # ?cands))"
      proof (cases ?cands)
        case Nil
        then show ?thesis by simp
      next
        case (Cons c cs)
        then show ?thesis
          by (simp add: max.assoc)
      qed
      with step show ?thesis
        using True Some by (simp add: Cons.IH p Let_def)
    qed
  qed
qed

lemma count_list_pos: "x \<in> set xs \<Longrightarrow> 0 < count_list xs x"
  by (metis count_list_0_iff gr0I)

lemma max_frequency_pos: "xs \<noteq> [] \<Longrightarrow> 0 < max_frequency xs"
proof -
  assume "xs \<noteq> []"
  then obtain x where x: "x \<in> set xs"
    by (cases xs) auto
  then have "count_list xs x \<le> max_frequency xs"
    by (simp add: max_frequency_def)
  with count_list_pos [OF x] show ?thesis
    by simp
qed

lemma most_frequent_nonempty: "xs \<noteq> [] \<Longrightarrow> most_frequent xs \<noteq> []"
proof -
  assume ne: "xs \<noteq> []"
  then have "Max (set (map (count_list xs) xs)) \<in> set (map (count_list xs) xs)"
    by (intro Max_in) simp_all
  then obtain x where "x \<in> set xs" "count_list xs x = max_frequency xs"
    by (auto simp: max_frequency_def)
  then show ?thesis
    by (auto simp: most_frequent_def filter_empty_conv)
qed

lemma mode_eq:
  assumes "values \<noteq> []"
  shows "mode values =
     Inr (if max_frequency values = 1 then None else Some (Max (set (most_frequent values))))"
proof -
  let ?fo = "first_occurrences values"
  let ?freq = "map (\<lambda>v. (v, int (count_list values v))) ?fo"
  from assms have fo_ne: "?fo \<noteq> []"
    using set_first_occurrences [of "values"] by (cases "values") auto
  have "set (map snd ?freq) = int ` set (map (count_list values) values)"
    by (simp add: image_image set_first_occurrences)
  moreover have "Max (int ` set (map (count_list values) values)) = int (max_frequency values)"
    unfolding max_frequency_def using assms by (intro mono_Max_commute [symmetric] monoI) simp_all
  ultimately have pm: "py_max (map snd ?freq) = Inr (int (max_frequency values))"
    using py_max_Max [of "map snd ?freq"] fo_ne by simp
  let ?cands = "map fst (filter (\<lambda>vc. snd vc = int (max_frequency values)) ?freq)"
  have cands: "set ?cands = set (most_frequent values)"
    by (force simp: most_frequent_def set_first_occurrences)
  have "most_frequent values \<noteq> []"
    using assms by (rule most_frequent_nonempty)
  with cands have "?cands \<noteq> []"
    by (metis set_empty)
  then have "foldl (best_step (int (max_frequency values))) None ?freq = Some (Max (set ?cands))"
    unfolding best_step_foldl Let_def by (simp only: option.case if_False)
  then have best: "foldl (best_step (int (max_frequency values))) None ?freq = Some (Max (set (most_frequent values)))"
    by (simp only: cands)
  have m: "mode values =
      bind_err (py_max (map snd ?freq)) (\<lambda>max_count.
         if max_count = 1 then Inr None else Inr (foldl (best_step max_count) None ?freq))"
    by (simp only: mode_def foldl_count_step_empty Let_def)
  show ?thesis
    unfolding m pm bind_err_def by (simp add: best)
qed

lemma distinct_count_list: "distinct xs \<Longrightarrow> x \<in> set xs \<Longrightarrow> count_list xs x = 1"
  by (induction xs) (auto simp: count_list_0_iff)

lemma distinct_max_frequency: "distinct xs \<Longrightarrow> xs \<noteq> [] \<Longrightarrow> max_frequency xs = 1"
proof -
  assume "distinct xs" "xs \<noteq> []"
  then obtain x where "x \<in> set xs"
    by (cases xs) auto
  with \<open>distinct xs\<close> have "count_list xs ` set xs = {1}"
    by (auto simp: distinct_count_list image_iff)
  then have "set (map (count_list xs) xs) = {1}"
    by simp
  then show ?thesis
    by (simp add: max_frequency_def del: set_map)
qed

text \<open>
  Claim C3. For every non-empty list of samples, \<^const>\<open>mode\<close> returns no value when the
  largest frequency of a value is 1, and otherwise the largest of the values that occur
  with the largest frequency; in particular a list of distinct values has no mode, and
  the mode of 1, 1, 2, 2 is 2. (On the empty list \<^verbatim>\<open>max\<close> raises.)
\<close>

theorem mode_largest_most_frequent:
  "(values \<noteq> [] \<longrightarrow>
      mode values =
        Inr (if max_frequency values = 1 then None else Some (Max (set (most_frequent values)))))
   \<and> (values \<noteq> [] \<longrightarrow> distinct values \<longrightarrow> mode values = Inr None)
   \<and> mode [1, 1, 2, 2] = Inr (Some 2)"
proof (intro conjI impI)
  assume "values \<noteq> []"
  then show "mode values =
      Inr (if max_frequency values = 1 then None else Some (Max (set (most_frequent values))))"
    by (rule mode_eq)
next
  assume "values \<noteq> []" "distinct values"
  then show "mode values = Inr None"
    by (simp add: mode_eq distinct_max_frequency)
next
  have "max_frequency [1, 1, 2, 2 :: real] = 2"
    by (simp add: max_frequency_def)
  moreover from this have "most_frequent [1, 1, 2, 2 :: real] = [1, 1, 2, 2]"
    by (simp add: most_frequent_def)
  ultimately show "mode [1, 1, 2, 2] = Inr (Some 2)"
    using mode_eq [of "[1, 1, 2, 2]"] by simp
qed

theorem mode_largest_most_frequent_witness:
  "[5, 3, 5, 3, 4 :: real] \<noteq> [] \<and> mode [5, 3, 5, 3, 4] = Inr (Some 5)
   \<and> [3, 1, 2 :: real] \<noteq> [] \<and> distinct [3, 1, 2 :: real] \<and> mode [3, 1, 2] = Inr None"
proof -
  have ne: "[5, 3, 5, 3, 4 :: real] \<noteq> []" "[3, 1, 2 :: real] \<noteq> []"
    by simp_all
  have dist: "distinct [3, 1, 2 :: real]"
    by simp
  have "max_frequency [5, 3, 5, 3, 4 :: real] = 2"
    by (simp add: max_frequency_def)
  moreover from this have "most_frequent [5, 3, 5, 3, 4 :: real] = [5, 3, 5, 3]"
    by (simp add: most_frequent_def)
  moreover from mode_largest_most_frequent [of "[5, 3, 5, 3, 4]"] ne(1)
  have "mode [5, 3, 5, 3, 4] =
      Inr (if max_frequency [5, 3, 5, 3, 4 :: real] = 1 then None
           else Some (Max (set (most_frequent [5, 3, 5, 3, 4]))))"
    by blast
  ultimately have "mode [5, 3, 5, 3, 4] = Inr (Some 5)"
    by simp
  moreover from mode_largest_most_frequent [of "[3, 1, 2]"] ne(2) dist
  have "mode [3, 1, 2] = Inr None"
    by blast
  ultimately show ?thesis
    using ne dist by blast
qed

lemma foldl_add_sum: "foldl (\<lambda>total v. total + f v) a xs = a + sum_list (map f xs)"
  for a :: real
  by (induction xs arbitrary: a) simp_all

lemma variance_eq:
  "variance values avg =
     (if length values < 2 then 0 else sum_squared_deviations values avg / (real (length values) - 1))"
  by (simp add: variance_def Let_def foldl_add_sum sum_squared_deviations_def power2_eq_square)

text \<open>
  Claim C4. For at least two samples \<^const>\<open>variance\<close> is the sum of the squared deviations
  from the given mean, divided by \<open>n - 1\<close>; for fewer than two samples it is 0, whatever
  the mean argument.
\<close>

theorem variance_sample:
  "(2 \<le> length values \<longrightarrow>
      variance values avg = (\<Sum>v\<leftarrow>values. (v - avg)\<^sup>2) / (real (length values) - 1))
   \<and> (length values < 2 \<longrightarrow> variance values avg = 0)"
  by (simp add: variance_eq sum_squared_deviations_def)

theorem variance_sample_witness:
  "2 \<le> length [1, 2, 2, 4 :: real] \<and> variance [1, 2, 2, 4] (9 / 4) = 19 / 12
   \<and> length [7 :: real] < 2 \<and> variance [7] 3 = 0"
  using variance_sample [of "[1, 2, 2, 4]" "9 / 4"] variance_sample [of "[7]" 3]
  by (simp add: power2_eq_square)

lemma sort_mset_cong: "mset xs = mset ys \<Longrightarrow> sort xs = sort ys"
  for xs :: "'a::linorder list"
  by (rule properties_for_sort) simp_all

lemma median_eq:
  assumes "values \<noteq> []"
  shows "median values =
     Inr (let s = sort values; n = length values
          in if odd n then s ! (n div 2) else (s ! (n div 2 - 1) + s ! (n div 2)) / 2)"
proof -
  let ?n = "length values"
  from assms have pos: "0 < ?n"
    by simp
  have mid: "nat (int ?n div 2) = ?n div 2"
    by (simp add: nat_div_distrib)
  show ?thesis
  proof (cases "odd ?n")
    case True
    then have "int ?n mod 2 = 1"
      by presburger
    moreover have "int ?n div 2 < int ?n"
      using pos by arith
    ultimately show ?thesis
      using True by (simp add: median_def Let_def getitem_def mid)
  next
    case False
    then have ev: "int ?n mod 2 \<noteq> 1"
      by presburger
    from False pos have ge2: "2 \<le> ?n"
      by presburger
    then have lo: "0 \<le> int ?n div 2 - 1" "int ?n div 2 - 1 < int ?n" "int ?n div 2 < int ?n"
      by arith+
    have "nat (int ?n div 2 - 1) = ?n div 2 - 1"
      using ge2 by (simp add: nat_diff_distrib nat_div_distrib)
    with lo ev False show ?thesis
      by (simp add: median_def Let_def getitem_def mid bind_err_def)
  qed
qed

lemma float_key_unsigned: "float_key (unsigned x) = float_key x"
  by (cases x) simp_all

lemma float_key_inj_unsigned:
  "float_key (unsigned x) = float_key (unsigned y) \<Longrightarrow> unsigned x = unsigned y"
  by (cases x; cases y) simp_all

lemma float_key_inj_one_zero:
  "\<not> (Fin 0 \<in> A \<and> NegZero \<in> A) \<Longrightarrow> inj_on float_key A"
proof (rule inj_onI)
  fix x y
  assume "\<not> (Fin 0 \<in> A \<and> NegZero \<in> A)" "x \<in> A" "y \<in> A" "float_key x = float_key y"
  then show "x = y"
    by (cases x; cases y) auto
qed

lemma unsigned_add: "unsigned (float_add a b) = unsigned (float_add (unsigned a) (unsigned b))"
  by (cases a; cases b) simp_all

lemma unsigned_half: "unsigned (float_half x) = unsigned (float_half (unsigned x))"
  by (cases x) simp_all

lemma unsigned_average:
  assumes "unsigned a = unsigned a'" "unsigned b = unsigned b'"
  shows "unsigned (float_half (float_add a b)) = unsigned (float_half (float_add a' b'))"
proof -
  have "unsigned (float_add a b) = unsigned (float_add a' b')"
    using assms unsigned_add [of a b] unsigned_add [of a' b'] by simp
  then show ?thesis
    using unsigned_half [of "float_add a b"] unsigned_half [of "float_add a' b'"] by simp
qed

lemma sorted_by_key_unique:
  assumes "mset us = mset vs" "sorted (map k us)" "sorted (map k vs)" "inj_on k (set us)"
  shows "us = vs"
proof -
  have "map k us = sort (map k us)" "map k vs = sort (map k vs)"
    using assms(2,3) by (simp_all add: sorted_sort_id)
  moreover have "mset (map k us) = mset (map k vs)"
    using assms(1) by simp
  ultimately have "map k us = map k vs"
    using sort_mset_cong [of "map k us" "map k vs"] by simp
  moreover have "set vs = set us"
    using assms(1) by (metis mset_eq_setD)
  ultimately show ?thesis
    using assms(4) by (simp add: inj_on_map_eq_map)
qed

lemma py_sorted_no_nan: "NaN \<notin> set xs \<Longrightarrow> py_sorted xs = Some (sort_key float_key xs)"
proof -
  assume "NaN \<notin> set xs"
  moreover have "sort_key float_key xs = xs" if "length xs \<le> 1"
    using that by (cases xs; cases "tl xs") auto
  ultimately show ?thesis
    by (simp add: py_sorted_def)
qed

lemma sorted_unsigned_cong:
  assumes "mset xs = mset ys"
  shows "map unsigned (sort_key float_key xs) = map unsigned (sort_key float_key ys)"
proof (rule sorted_by_key_unique [where k = float_key])
  show "mset (map unsigned (sort_key float_key xs)) = mset (map unsigned (sort_key float_key ys))"
    using assms by simp
  show "sorted (map float_key (map unsigned (sort_key float_key xs)))"
    by (simp add: comp_def float_key_unsigned)
  show "sorted (map float_key (map unsigned (sort_key float_key ys)))"
    by (simp add: comp_def float_key_unsigned)
  show "inj_on float_key (set (map unsigned (sort_key float_key xs)))"
    by (auto intro!: inj_onI dest: float_key_inj_unsigned)
qed

lemma sorted_exact_cong:
  assumes "mset xs = mset ys" "\<not> (Fin 0 \<in> set xs \<and> NegZero \<in> set xs)"
  shows "sort_key float_key xs = sort_key float_key ys"
proof (rule sorted_by_key_unique [where k = float_key])
  show "mset (sort_key float_key xs) = mset (sort_key float_key ys)"
    using assms(1) by simp
  show "sorted (map float_key (sort_key float_key xs))" "sorted (map float_key (sort_key float_key ys))"
    by simp_all
  show "inj_on float_key (set (sort_key float_key xs))"
    using assms(2) by (simp add: float_key_inj_one_zero)
qed

lemma median_float_eq:
  assumes "NaN \<notin> set xs" "xs \<noteq> []"
  shows "median_float xs =
     Some (Inr (let s = sort_key float_key xs; n = length xs
                in if odd n then s ! (n div 2)
                   else float_half (float_add (s ! (n div 2 - 1)) (s ! (n div 2)))))"
proof -
  let ?n = "length xs"
  from assms have pos: "0 < ?n"
    by simp
  have mid: "nat (int ?n div 2) = ?n div 2"
    by (simp add: nat_div_distrib)
  show ?thesis
  proof (cases "odd ?n")
    case True
    then have "int ?n mod 2 = 1"
      by presburger
    moreover have "int ?n div 2 < int ?n"
      using pos by arith
    ultimately show ?thesis
      using True assms(1) by (simp add: median_float_def py_sorted_no_nan Let_def getitem_def mid)
  next
    case False
    then have ev: "int ?n mod 2 \<noteq> 1"
      by presburger
    from False pos have ge2: "2 \<le> ?n"
      by presburger
    then have lo: "0 \<le> int ?n div 2 - 1" "int ?n div 2 - 1 < int ?n" "int ?n div 2 < int ?n"
      by arith+
    have "nat (int ?n div 2 - 1) = ?n div 2 - 1"
      using ge2 by (simp add: nat_diff_distrib nat_div_distrib)
    with lo ev False assms(1) show ?thesis
      by (simp add: median_float_def py_sorted_no_nan Let_def getitem_def mid bind_err_def)
  qed
qed

lemma median_float_up_to_sign:
  assumes "NaN \<notin> set xs" "mset xs = mset ys" "xs \<noteq> []"
  shows "\<exists>a b. median_float xs = Some (Inr a) \<and> median_float ys = Some (Inr b)
      \<and> unsigned a = unsigned b"
proof -
  from assms have ys: "NaN \<notin> set ys" "ys \<noteq> []" and len: "length ys = length xs"
    by (auto dest: mset_eq_setD mset_eq_length)
  let ?s = "sort_key float_key xs" and ?t = "sort_key float_key ys"
  let ?n = "length xs"
  have u: "unsigned (?s ! i) = unsigned (?t ! i)" if "i < ?n" for i
  proof -
    have "map unsigned ?s ! i = map unsigned ?t ! i"
      using sorted_unsigned_cong [OF assms(2)] by simp
    with that len show ?thesis
      by simp
  qed
  show ?thesis
  proof (cases "odd ?n")
    case True
    have "?n div 2 < ?n"
      using assms(3) by simp
    from u [OF this] True show ?thesis
      by (simp add: median_float_eq [OF assms(1,3)] median_float_eq [OF ys] len Let_def)
  next
    case False
    moreover from assms(3) have "0 < ?n"
      by simp
    ultimately have "2 \<le> ?n"
      by presburger
    then have "?n div 2 - 1 < ?n" "?n div 2 < ?n"
      by simp_all
    from unsigned_average [OF u [OF this(1)] u [OF this(2)]] False show ?thesis
      by (simp add: median_float_eq [OF assms(1,3)] median_float_eq [OF ys] len Let_def)
  qed
qed

lemma median_float_exact:
  assumes "NaN \<notin> set xs" "mset xs = mset ys" "\<not> (Fin 0 \<in> set xs \<and> NegZero \<in> set xs)"
  shows "median_float xs = median_float ys"
proof -
  from assms have "NaN \<notin> set ys"
    by (auto dest: mset_eq_setD)
  with assms(1) sorted_exact_cong [OF assms(2,3)] show ?thesis
    by (simp add: median_float_def py_sorted_no_nan)
qed

lemma sort_key_map_fin: "sort_key float_key (map Fin rs) = map Fin (sort rs)"
proof (rule sorted_by_key_unique [where k = float_key])
  show "mset (sort_key float_key (map Fin rs)) = mset (map Fin (sort rs))"
    by simp
  show "sorted (map float_key (sort_key float_key (map Fin rs)))"
    by simp
  have "sorted_wrt (\<lambda>x y. (0 :: int, x) \<le> (0, y)) (sort rs)"
    using sorted_sort [of rs] by (rule sorted_wrt_mono_rel [rotated]) simp
  then show "sorted (map float_key (map Fin (sort rs)))"
    by (simp add: comp_def sorted_map)
  show "inj_on float_key (set (sort_key float_key (map Fin rs)))"
    by (auto intro!: inj_onI)
qed

lemma median_float_fin: "median_float (map Fin rs) = Some (map_sum id Fin (median rs))"
proof -
  have "py_sorted (map Fin rs) = Some (map Fin (sort rs))"
    using py_sorted_no_nan [of "map Fin rs"] by (auto simp: sort_key_map_fin)
  moreover have "getitem (map Fin zs) i = map_sum id Fin (getitem zs i)" for zs :: "real list" and i
    by (simp add: getitem_def Let_def)
  ultimately show ?thesis
    by (cases "getitem (sort rs) (int (length rs) div 2 - 1)"; cases "getitem (sort rs) (int (length rs) div 2)")
       (simp_all add: median_float_def median_def Let_def bind_err_def)
qed

text \<open>
  Claim C6, as the code has it. On a non-empty list of floats without NaN,
  \<^verbatim>\<open>median\<close> gives the same result on two lists that are permutations of each other,
  up to the sign of a zero result, and exactly the same result when the list does not
  hold zeros of both signs. The result is the middle element of the ascending stable
  sort for an odd count and the average of the two central elements for an even count.
  On finite values other than the negative zero this is \<^const>\<open>median\<close> on the reals.
\<close>

theorem median_permutation_up_to_zero_sign:
  "(NaN \<notin> set xs \<longrightarrow> mset xs = mset ys \<longrightarrow> xs \<noteq> [] \<longrightarrow>
      (\<exists>a b. median_float xs = Some (Inr a) \<and> median_float ys = Some (Inr b)
             \<and> unsigned a = unsigned b)
    \<and> (\<not> (Fin 0 \<in> set xs \<and> NegZero \<in> set xs) \<longrightarrow> median_float xs = median_float ys))
   \<and> (NaN \<notin> set xs \<longrightarrow> xs \<noteq> [] \<longrightarrow>
        median_float xs =
          Some (Inr (let s = sort_key float_key xs; n = length xs
                     in if odd n then s ! (n div 2)
                        else float_half (float_add (s ! (n div 2 - 1)) (s ! (n div 2))))))
   \<and> median_float (map Fin rs) = Some (map_sum id Fin (median rs))"
proof (intro conjI impI)
  assume "NaN \<notin> set xs" "mset xs = mset ys" "xs \<noteq> []"
  then show "\<exists>a b. median_float xs = Some (Inr a) \<and> median_float ys = Some (Inr b)
      \<and> unsigned a = unsigned b"
    by (rule median_float_up_to_sign)
next
  assume "NaN \<notin> set xs" "mset xs = mset ys" "\<not> (Fin 0 \<in> set xs \<and> NegZero \<in> set xs)"
  then show "median_float xs = median_float ys"
    by (rule median_float_exact)
next
  assume "NaN \<notin> set xs" "xs \<noteq> []"
  then show "median_float xs =
      Some (Inr (let s = sort_key float_key xs; n = length xs
                 in if odd n then s ! (n div 2)
                    else float_half (float_add (s ! (n div 2 - 1)) (s ! (n div 2)))))"
    by (rule median_float_eq)
next
  show "median_float (map Fin rs) = Some (map_sum id Fin (median rs))"
    by (rule median_float_fin)
qed

lemma sorted_zeros:
  "sort_key float_key [Fin 0, NegZero, Fin 1] = [Fin 0, NegZero, Fin 1]"
  "sort_key float_key [NegZero, Fin 0, Fin 1] = [NegZero, Fin 0, Fin 1]"
  by simp_all

text \<open>
  The claim as stated fails on the lines 0, -0, 1: the two zeros compare equal, the
  stable sort keeps them in the order of the input, and the middle element is the
  negative zero for one order and the positive zero for the other.
\<close>

theorem median_permutation_counterexample:
  "mset [Fin 0, NegZero, Fin 1] = mset [NegZero, Fin 0, Fin 1]
   \<and> median_float [Fin 0, NegZero, Fin 1] = Some (Inr NegZero)
   \<and> median_float [NegZero, Fin 0, Fin 1] = Some (Inr (Fin 0))
   \<and> median_float [Fin 0, NegZero, Fin 1] \<noteq> median_float [NegZero, Fin 0, Fin 1]"
  by (simp add: median_float_def py_sorted_def getitem_def Let_def)

theorem median_permutation_up_to_zero_sign_witness:
  "NaN \<notin> set [Fin 4, Fin 1, NegZero, Fin 2] \<and> mset [Fin 4, Fin 1, NegZero, Fin 2] = mset [Fin 2, Fin 4, NegZero, Fin 1]
   \<and> [Fin 4, Fin 1, NegZero, Fin 2] \<noteq> []
   \<and> \<not> (Fin 0 \<in> set [Fin 4, Fin 1, NegZero, Fin 2] \<and> NegZero \<in> set [Fin 4, Fin 1, NegZero, Fin 2])
   \<and> median_float [Fin 4, Fin 1, NegZero, Fin 2] = median_float [Fin 2, Fin 4, NegZero, Fin 1]
   \<and> median_float [Fin 4, Fin 1, NegZero, Fin 2] = Some (Inr (Fin (3 / 2)))"
proof -
  let ?xs = "[Fin 4, Fin 1, NegZero, Fin 2]" and ?ys = "[Fin 2, Fin 4, NegZero, Fin 1]"
  have nan: "NaN \<notin> set ?xs" and ne: "?xs \<noteq> []"
    and zero: "\<not> (Fin 0 \<in> set ?xs \<and> NegZero \<in> set ?xs)"
    by simp_all
  have perm: "mset ?xs = mset ?ys"
    by (simp add: ac_simps)
  from median_permutation_up_to_zero_sign [of ?xs ?ys] nan perm ne zero
  have same: "median_float ?xs = median_float ?ys"
    by blast
  from median_permutation_up_to_zero_sign [of ?xs ?ys] nan ne
  have "median_float ?xs =
      Some (Inr (let s = sort_key float_key ?xs; n = length ?xs
                 in if odd n then s ! (n div 2)
                    else float_half (float_add (s ! (n div 2 - 1)) (s ! (n div 2)))))"
    by blast
  then have "median_float ?xs = Some (Inr (Fin (3 / 2)))"
    by (simp add: Let_def)
  with nan perm ne zero same show ?thesis
    by blast
qed

lemma mean_eq: "values \<noteq> [] \<Longrightarrow> mean values = Inr (arithmetic_mean values)"
  using foldl_add_sum [of "\<lambda>v. v" 0 "values"]
  by (simp add: mean_def arithmetic_mean_def)

lemma variance_mean: "variance values (arithmetic_mean values) = sample_variance values"
  by (simp add: variance_eq sample_variance_def)

lemma population_from_sample:
  assumes "values \<noteq> []"
  shows "sample_variance values * (real (length values) - 1) / real (length values) =
       population_variance values"
proof (cases "length values < 2")
  case True
  with assms obtain x where "values = [x]"
    by (cases "values"; cases "tl values") auto
  then show ?thesis
    by (simp add: sample_variance_def population_variance_def sum_squared_deviations_def
        arithmetic_mean_def)
next
  case False
  then show ?thesis
    by (simp add: sample_variance_def population_variance_def)
qed

lemma statistics_main_success:
  assumes "length argv = 2"
    and "read_numbers float_of fs (argv ! 1) = Ok (numbers, errors)"
    and "numbers \<noteq> []"
  shows "\<exists>med mo. statistics_main float_of fs t argv =
    Inr \<lparr>console = map (\<lambda>e. [Txt ''ERROR: '', Txt e]) errors @
            [[Txt ''Compute Statistics - Results''],
             [Txt ''----------------------------''],
             [Txt ''Input file: '', Txt (argv ! 1)],
             [Txt ''Valid numbers: '', Txt (str_int (int (length numbers)))],
             [Txt ''Invalid lines: '', Txt (str_int (int (length errors)))],
             [],
             [Txt ''Descriptive Statistics (population):''],
             [Txt ''Mean: '', Flt (arithmetic_mean numbers)],
             [Txt ''Median: '', Flt med],
             [Txt ''Mode: '', mo],
             [Txt ''Variance: '', Flt (sample_variance numbers)],
             [Txt ''Standard deviation: '', Flt (sqrt (population_variance numbers))],
             [],
             [Txt ''Elapsed time (s): '', Flt t]] @ [[]],
          exit_status = 0,
          saved = Some (statistics_RESULT_FILE,
            [[Txt ''Compute Statistics - Results''],
             [Txt ''----------------------------''],
             [Txt ''Input file: '', Txt (argv ! 1)],
             [Txt ''Valid numbers: '', Txt (str_int (int (length numbers)))],
             [Txt ''Invalid lines: '', Txt (str_int (int (length errors)))],
             [],
             [Txt ''Descriptive Statistics (population):''],
             [Txt ''Mean: '', Flt (arithmetic_mean numbers)],
             [Txt ''Median: '', Flt med],
             [Txt ''Mode: '', mo],
             [Txt ''Variance: '', Flt (sample_variance numbers)],
             [Txt ''Standard deviation: '', Flt (sqrt (population_variance numbers))],
             [],
             [Txt ''Elapsed time (s): '', Flt t]])\<rparr>"
proof -
  obtain med where med: "median numbers = Inr med"
    using median_eq [OF assms(3)] by blast
  obtain mo where mo: "mode numbers = Inr mo"
    using mode_eq [OF assms(3)] by blast
  show ?thesis
    using assms med mo
    by (simp add: statistics_main_def Let_def bind_err_def mean_eq variance_mean
        population_from_sample standard_deviation_def)
qed

lemma float_literal_digits: "float_literal ''1'' = Some 1" "float_literal ''2'' = Some 2"
  "float_literal ''4'' = Some 4"
  by (simp_all add: float_literal_def int_literal_def all_digits_def digits_value_def)

lemma scenario_numbers:
  "read_numbers float_literal statistics_scenario ''data.txt'' = Ok ([1, 2, 2, 4], [])"
  by (simp add: read_numbers_def statistics_scenario_def enumerate_eq_zip upt_rec
      read_numbers_step_def Let_def strip_def isspace_def float_literal_digits)

lemma scenario_statistics:
  "arithmetic_mean [1, 2, 2, 4] = 9 / 4" "sample_variance [1, 2, 2, 4] = 19 / 12"
  "population_variance [1, 2, 2, 4] = 19 / 16"
  by (simp_all add: arithmetic_mean_def sample_variance_def population_variance_def
      sum_squared_deviations_def power2_eq_square)

lemma printed_after_variance:
  "printed_after ''Variance: ''
     [[Txt a], [Txt b], [Txt ''Input file: '', Txt c], [Txt ''Valid numbers: '', Txt d],
      [Txt ''Invalid lines: '', Txt e], [], [Txt f], [Txt ''Mean: '', m1], [Txt ''Median: '', m2],
      [Txt ''Mode: '', m3], [Txt ''Variance: '', x], [Txt ''Standard deviation: '', y], [],
      [Txt ''Elapsed time (s): '', z]] = Some x"
  by simp

lemma printed_after_deviation:
  "printed_after ''Standard deviation: ''
     [[Txt a], [Txt b], [Txt ''Input file: '', Txt c], [Txt ''Valid numbers: '', Txt d],
      [Txt ''Invalid lines: '', Txt e], [], [Txt f], [Txt ''Mean: '', m1], [Txt ''Median: '', m2],
      [Txt ''Mode: '', m3], [Txt ''Variance: '', x], [Txt ''Standard deviation: '', y], [],
      [Txt ''Elapsed time (s): '', z]] = Some y"
  by simp

lemma reported_fields:
  assumes "length argv = 2"
    and "read_numbers float_of fs (argv ! 1) = Ok (numbers, errors)"
    and "numbers \<noteq> []"
  shows "printed_after ''Variance: '' (saved_report (statistics_main float_of fs t argv)) =
      Some (Flt (sample_variance numbers))"
    and "printed_after ''Standard deviation: '' (saved_report (statistics_main float_of fs t argv)) =
      Some (Flt (sqrt (population_variance numbers)))"
proof -
  from statistics_main_success [OF assms, of t] obtain med mo where
    "saved_report (statistics_main float_of fs t argv) =
      [[Txt ''Compute Statistics - Results''],
       [Txt ''----------------------------''],
       [Txt ''Input file: '', Txt (argv ! 1)],
       [Txt ''Valid numbers: '', Txt (str_int (int (length numbers)))],
       [Txt ''Invalid lines: '', Txt (str_int (int (length errors)))],
       [],
       [Txt ''Descriptive Statistics (population):''],
       [Txt ''Mean: '', Flt (arithmetic_mean numbers)],
       [Txt ''Median: '', Flt med],
       [Txt ''Mode: '', mo],
       [Txt ''Variance: '', Flt (sample_variance numbers)],
       [Txt ''Standard deviation: '', Flt (sqrt (population_variance numbers))],
       [],
       [Txt ''Elapsed time (s): '', Flt t]]"
    by (auto simp: saved_report_def)
  then show "printed_after ''Variance: '' (saved_report (statistics_main float_of fs t argv)) =
      Some (Flt (sample_variance numbers))"
    and "printed_after ''Standard deviation: '' (saved_report (statistics_main float_of fs t argv)) =
      Some (Flt (sqrt (population_variance numbers)))"
    by (simp_all only: printed_after_variance printed_after_deviation)
qed

lemma sqrt_scenario: "1.0897 < sqrt (19 / 16 :: real)" "sqrt (19 / 16 :: real) < 1.0898"
proof -
  have "(1.0897 :: real)\<^sup>2 < 19 / 16"
    by (simp add: power2_eq_square)
  then show "1.0897 < sqrt (19 / 16 :: real)"
    by (rule real_less_rsqrt)
  have "(19 / 16 :: real) < 1.0898\<^sup>2"
    by (simp add: power2_eq_square)
  then show "sqrt (19 / 16 :: real) < 1.0898"
    by (intro real_less_lsqrt) simp_all
qed

text \<open>
  Claim C1, as the code has it. In a run on a non-empty valid sample the value printed
  after the label Variance is the sample variance (\<^verbatim>\<open>main\<close> formats \<^verbatim>\<open>var\<close>, not
  \<^verbatim>\<open>var_population\<close>), and the value printed after Standard deviation is the square root
  of the population variance, which is the sample variance rescaled by \<open>(n - 1) / n\<close>.
  For the input lines 1, 2, 2, 4 the reported variance is \<open>19 / 12\<close> (1.5833...) and the
  reported standard deviation is the square root of 1.1875, between 1.0897 and 1.0898.
\<close>

theorem reported_variance_is_sample_variance:
  "(length argv = 2 \<longrightarrow> read_numbers float_of fs (argv ! 1) = Ok (numbers, errors) \<longrightarrow> numbers \<noteq> [] \<longrightarrow>
      printed_after ''Variance: '' (saved_report (statistics_main float_of fs t argv)) =
        Some (Flt (sample_variance numbers))
    \<and> printed_after ''Standard deviation: '' (saved_report (statistics_main float_of fs t argv)) =
        Some (Flt (sqrt (population_variance numbers)))
    \<and> population_variance numbers =
        sample_variance numbers * (real (length numbers) - 1) / real (length numbers))
   \<and> printed_after ''Variance: ''
        (saved_report (statistics_main float_literal statistics_scenario t
           [''computeStatistics.py'', ''data.txt''])) = Some (Flt (19 / 12))
   \<and> printed_after ''Standard deviation: ''
        (saved_report (statistics_main float_literal statistics_scenario t
           [''computeStatistics.py'', ''data.txt''])) = Some (Flt (sqrt 1.1875))
   \<and> 1.0897 < sqrt (1.1875 :: real) \<and> sqrt (1.1875 :: real) < 1.0898"
proof (intro conjI impI)
  assume run: "length argv = 2" "read_numbers float_of fs (argv ! 1) = Ok (numbers, errors)"
    "numbers \<noteq> []"
  show "printed_after ''Variance: '' (saved_report (statistics_main float_of fs t argv)) =
      Some (Flt (sample_variance numbers))"
    using run by (rule reported_fields(1))
  show "printed_after ''Standard deviation: '' (saved_report (statistics_main float_of fs t argv)) =
      Some (Flt (sqrt (population_variance numbers)))"
    using run by (rule reported_fields(2))
  show "population_variance numbers =
      sample_variance numbers * (real (length numbers) - 1) / real (length numbers)"
    using run(3) by (rule population_from_sample [symmetric])
next
  let ?argv = "[''computeStatistics.py'', ''data.txt'']"
  have run: "length ?argv = 2"
    "read_numbers float_literal statistics_scenario (?argv ! 1) = Ok ([1, 2, 2, 4], [])"
    "[1, 2, 2, 4 :: real] \<noteq> []"
    by (simp_all add: scenario_numbers)
  have eq: "(1.1875 :: real) = 19 / 16"
    by simp
  show "printed_after ''Variance: '' (saved_report (statistics_main float_literal statistics_scenario t ?argv)) =
      Some (Flt (19 / 12))"
    using reported_fields(1) [OF run, of t] by (simp only: scenario_statistics)
  show "printed_after ''Standard deviation: ''
      (saved_report (statistics_main float_literal statistics_scenario t ?argv)) = Some (Flt (sqrt 1.1875))"
    using reported_fields(2) [OF run, of t] by (simp only: scenario_statistics eq)
  show "1.0897 < sqrt (1.1875 :: real)" "sqrt (1.1875 :: real) < 1.0898"
    using sqrt_scenario by (simp_all only: eq)
qed

text \<open>
  The claim as stated, that the value after Variance is the population variance 1.1875,
  fails on the same input: the run prints \<open>19 / 12\<close>.
\<close>

theorem reported_variance_counterexample:
  "printed_after ''Variance: ''
     (saved_report (statistics_main float_literal statistics_scenario 0
        [''computeStatistics.py'', ''data.txt''])) \<noteq> Some (Flt (population_variance [1, 2, 2, 4]))
   \<and> printed_after ''Variance: ''
     (saved_report (statistics_main float_literal statistics_scenario 0
        [''computeStatistics.py'', ''data.txt''])) \<noteq> Some (Flt 1.1875)
   \<and> population_variance [1, 2, 2, 4] = 1.1875"
proof -
  let ?argv = "[''computeStatistics.py'', ''data.txt'']"
  have run: "length ?argv = 2"
    "read_numbers float_literal statistics_scenario (?argv ! 1) = Ok ([1, 2, 2, 4], [])"
    "[1, 2, 2, 4 :: real] \<noteq> []"
    by (simp_all add: scenario_numbers)
  show ?thesis
    using reported_fields(1) [OF run, of 0]
    by (simp add: scenario_statistics)
qed

theorem reported_variance_is_sample_variance_witness:
  "length [''computeStatistics.py'', ''data.txt''] = 2
   \<and> read_numbers float_literal statistics_scenario ([''computeStatistics.py'', ''data.txt''] ! 1) =
       Ok ([1, 2, 2, 4], [])
   \<and> [1, 2, 2, 4 :: real] \<noteq> []
   \<and> printed_after ''Variance: ''
        (saved_report (statistics_main float_literal statistics_scenario 0
           [''computeStatistics.py'', ''data.txt''])) = Some (Flt (sample_variance [1, 2, 2, 4]))
   \<and> sample_variance [1, 2, 2, 4] = 19 / 12"
proof -
  let ?argv = "[''computeStatistics.py'', ''data.txt'']"
  have run: "length ?argv = 2"
    "read_numbers float_literal statistics_scenario (?argv ! 1) = Ok ([1, 2, 2, 4], [])"
    "[1, 2, 2, 4 :: real] \<noteq> []"
    by (simp_all add: scenario_numbers)
  with reported_variance_is_sample_variance [of ?argv float_literal statistics_scenario "[1, 2, 2, 4]" "[]" 0]
  have "printed_after ''Variance: '' (saved_report (statistics_main float_literal statistics_scenario 0 ?argv)) =
      Some (Flt (sample_variance [1, 2, 2, 4]))"
    by blast
  with run scenario_statistics(2) show ?thesis
    by blast
qed

section \<open>Fatal conditions of the three utilities\<close>

lemma read_numbers_cases:
  "(fs p = None \<and> read_numbers float_of fs p = SysExit (''ERROR: File not found: '' @ p) 1)
   \<or> (fs p \<noteq> None \<and> (\<exists>numbers errors. read_numbers float_of fs p = Ok (numbers, errors)))"
  by (cases "fs p") (auto simp: read_numbers_def intro: prod.exhaust)

lemma read_items_cases:
  "(fs p = None \<and> read_items int_of fs p = SysExit (''ERROR: File not found: '' @ p) 1)
   \<or> (fs p \<noteq> None \<and> (\<exists>items errors. read_items int_of fs p = Ok (items, errors)))"
  by (cases "fs p") (auto simp: read_items_def intro: prod.exhaust)

lemma read_words_cases:
  "(fs p = None \<and> read_words fs p = SysExit (''ERROR: File not found: '' @ p) 1)
   \<or> (fs p \<noteq> None \<and> (\<exists>ws errors. read_words fs p = Ok (ws, errors)))"
  by (cases "fs p") (auto simp: read_words_def intro: prod.exhaust)

lemma statistics_fatal:
  assumes "length argv \<noteq> 2 \<or> fs (argv ! 1) = None
      \<or> (\<exists>errors. read_numbers float_of fs (argv ! 1) = Ok ([], errors))"
  shows "\<exists>out. statistics_main float_of fs t argv = Inr out \<and> exit_status out = 1 \<and> saved out = None
      \<and> [Txt ''Compute Statistics - Results''] \<notin> set (console out)"
proof (cases "length argv = 2")
  case False
  then show ?thesis
    by (simp add: statistics_main_def)
next
  case True
  from read_numbers_cases [of fs "argv ! 1" float_of] show ?thesis
  proof (elim disjE conjE exE)
    assume "read_numbers float_of fs (argv ! 1) = SysExit (''ERROR: File not found: '' @ argv ! 1) 1"
    with True show ?thesis
      by (simp add: statistics_main_def)
  next
    fix numbers errors
    assume some: "fs (argv ! 1) \<noteq> None" and ok: "read_numbers float_of fs (argv ! 1) = Ok (numbers, errors)"
    with assms True have "numbers = []"
      by auto
    with True ok show ?thesis
      by (auto simp: statistics_main_def)
  qed
qed

lemma statistics_not_fatal:
  assumes "\<not> (length argv \<noteq> 2 \<or> fs (argv ! 1) = None
      \<or> (\<exists>errors. read_numbers float_of fs (argv ! 1) = Ok ([], errors)))"
  shows "\<exists>out report. statistics_main float_of fs t argv = Inr out \<and> exit_status out = 0
      \<and> saved out = Some (statistics_RESULT_FILE, report)"
proof -
  from assms have len: "length argv = 2" and some: "fs (argv ! 1) \<noteq> None"
    by simp_all
  with read_numbers_cases [of fs "argv ! 1" float_of] obtain numbers errors
    where ok: "read_numbers float_of fs (argv ! 1) = Ok (numbers, errors)"
    by auto
  with assms have "numbers \<noteq> []"
    by auto
  from statistics_main_success [OF len ok this, of t] show ?thesis
    by auto
qed

lemma convert_fatal:
  assumes "length argv \<noteq> 2 \<or> fs (argv ! 1) = None
      \<or> (\<exists>items errors. read_items int_of fs (argv ! 1) = Ok (items, errors)
            \<and> list_all (\<lambda>(raw, v). v = None) items)"
  shows "exit_status (convert_main int_of fs t argv) = 1 \<and> saved (convert_main int_of fs t argv) = None
      \<and> [Txt ''Convert Numbers - Results''] \<notin> set (console (convert_main int_of fs t argv))"
proof (cases "length argv = 2")
  case False
  then show ?thesis
    by (simp add: convert_main_def)
next
  case True
  from read_items_cases [of fs "argv ! 1" int_of] show ?thesis
  proof (elim disjE conjE exE)
    assume "read_items int_of fs (argv ! 1) = SysExit (''ERROR: File not found: '' @ argv ! 1) 1"
    with True show ?thesis
      by (simp add: convert_main_def)
  next
    fix items errors
    assume some: "fs (argv ! 1) \<noteq> None" and ok: "read_items int_of fs (argv ! 1) = Ok (items, errors)"
    with assms True have "list_all (\<lambda>(raw, v). v = None) items"
      by auto
    with True ok show ?thesis
      by (auto simp: convert_main_def)
  qed
qed

lemma convert_not_fatal:
  assumes "\<not> (length argv \<noteq> 2 \<or> fs (argv ! 1) = None
      \<or> (\<exists>items errors. read_items int_of fs (argv ! 1) = Ok (items, errors)
            \<and> list_all (\<lambda>(raw, v). v = None) items))"
  shows "exit_status (convert_main int_of fs t argv) = 0
      \<and> (\<exists>report. saved (convert_main int_of fs t argv) = Some (convert_RESULT_FILE, report))"
proof -
  from assms have len: "length argv = 2" and some: "fs (argv ! 1) \<noteq> None"
    by simp_all
  with read_items_cases [of fs "argv ! 1" int_of] obtain items errors
    where ok: "read_items int_of fs (argv ! 1) = Ok (items, errors)"
    by auto
  with assms have "\<not> list_all (\<lambda>(raw, v). v = None) items"
    by auto
  with len ok show ?thesis
    by (simp add: convert_main_def Let_def)
qed

lemma wordcount_fatal:
  assumes "length argv \<noteq> 2 \<or> fs (argv ! 1) = None
      \<or> (\<exists>errors. read_words fs (argv ! 1) = Ok ([], errors))"
  shows "exit_status (wordcount_main fs t argv) = 1 \<and> saved (wordcount_main fs t argv) = None
      \<and> [Txt ''Row Labels'', Txt [CHR 0x09], Txt ''Count of '', Txt (splitext_root (basename (argv ! 1)))]
            \<notin> set (console (wordcount_main fs t argv))"
proof (cases "length argv = 2")
  case False
  then show ?thesis
    by (simp add: wordcount_main_def)
next
  case True
  from read_words_cases [of fs "argv ! 1"] show ?thesis
  proof (elim disjE conjE exE)
    assume "read_words fs (argv ! 1) = SysExit (''ERROR: File not found: '' @ argv ! 1) 1"
    with True show ?thesis
      by (simp add: wordcount_main_def)
  next
    fix ws errors
    assume some: "fs (argv ! 1) \<noteq> None" and ok: "read_words fs (argv ! 1) = Ok (ws, errors)"
    with assms True have "ws = []"
      by auto
    with True ok show ?thesis
      by (auto simp: wordcount_main_def)
  qed
qed

lemma wordcount_not_fatal:
  assumes "\<not> (length argv \<noteq> 2 \<or> fs (argv ! 1) = None
      \<or> (\<exists>errors. read_words fs (argv ! 1) = Ok ([], errors)))"
  shows "exit_status (wordcount_main fs t argv) = 0
      \<and> (\<exists>report. saved (wordcount_main fs t argv) = Some (wordcount_RESULT_FILE, report))"
proof -
  from assms have len: "length argv = 2" and some: "fs (argv ! 1) \<noteq> None"
    by simp_all
  with read_words_cases [of fs "argv ! 1"] obtain ws errors
    where ok: "read_words fs (argv ! 1) = Ok (ws, errors)"
    by auto
  with assms have "ws \<noteq> []"
    by auto
  with len ok show ?thesis
    by (simp add: wordcount_main_def Let_def)
qed

text \<open>
  Claim C8. A run whose argument count is wrong, whose input file is missing, or that
  parses zero valid entries ends with exit status 1 and reaches no save: no result file
  is written, and the console does not hold the first line of the report. This holds
  for the three utilities (for the converter, zero valid entries means that every item
  is invalid). A run with none of the three conditions ends with status 0 and writes
  its result file.
\<close>

theorem fatal_conditions_write_nothing:
  "((length argv \<noteq> 2 \<or> fs (argv ! 1) = None
       \<or> (\<exists>errors. read_numbers float_of fs (argv ! 1) = Ok ([], errors)))
      \<longrightarrow> (\<exists>out. statistics_main float_of fs t argv = Inr out \<and> exit_status out = 1 \<and> saved out = None
             \<and> [Txt ''Compute Statistics - Results''] \<notin> set (console out)))
   \<and> ((length argv \<noteq> 2 \<or> fs (argv ! 1) = None
       \<or> (\<exists>items errors. read_items int_of fs (argv ! 1) = Ok (items, errors)
             \<and> list_all (\<lambda>(raw, v). v = None) items))
      \<longrightarrow> exit_status (convert_main int_of fs t argv) = 1 \<and> saved (convert_main int_of fs t argv) = None
          \<and> [Txt ''Convert Numbers - Results''] \<notin> set (console (convert_main int_of fs t argv)))
   \<and> ((length argv \<noteq> 2 \<or> fs (argv ! 1) = None
       \<or> (\<exists>errors. read_words fs (argv ! 1) = Ok ([], errors)))
      \<longrightarrow> exit_status (wordcount_main fs t argv) = 1 \<and> saved (wordcount_main fs t argv) = None
          \<and> [Txt ''Row Labels'', Txt [CHR 0x09], Txt ''Count of '', Txt (splitext_root (basename (argv ! 1)))]
                \<notin> set (console (wordcount_main fs t argv)))
   \<and> (\<not> (length argv \<noteq> 2 \<or> fs (argv ! 1) = None
       \<or> (\<exists>errors. read_numbers float_of fs (argv ! 1) = Ok ([], errors)))
      \<longrightarrow> (\<exists>out report. statistics_main float_of fs t argv = Inr out \<and> exit_status out = 0
             \<and> saved out = Some (statistics_RESULT_FILE, report)))
   \<and> (\<not> (length argv \<noteq> 2 \<or> fs (argv ! 1) = None
       \<or> (\<exists>items errors. read_items int_of fs (argv ! 1) = Ok (items, errors)
             \<and> list_all (\<lambda>(raw, v). v = None) items))
      \<longrightarrow> exit_status (convert_main int_of fs t argv) = 0
          \<and> (\<exists>report. saved (convert_main int_of fs t argv) = Some (convert_RESULT_FILE, report)))
   \<and> (\<not> (length argv \<noteq> 2 \<or> fs (argv ! 1) = None
       \<or> (\<exists>errors. read_words fs (argv ! 1) = Ok ([], errors)))
      \<longrightarrow> exit_status (wordcount_main fs t argv) = 0
          \<and> (\<exists>report. saved (wordcount_main fs t argv) = Some (wordcount_RESULT_FILE, report)))"
  using statistics_fatal [of argv fs float_of t] statistics_not_fatal [of argv fs float_of t]
    convert_fatal [of argv fs int_of t] convert_not_fatal [of argv fs int_of t]
    wordcount_fatal [of argv fs t] wordcount_not_fatal [of argv fs t]
  by blast

lemma no_valid_numbers:
  "read_numbers float_literal (\<lambda>path. Some [''abc'']) ''in.txt'' = Ok ([], [''Line 1: invalid number '' @ [CHR 0x27] @ ''abc'' @ [CHR 0x27] @ '' (skipped)''])"
  by (simp add: read_numbers_def enumerate_eq_zip upt_rec read_numbers_step_def Let_def strip_def
      isspace_def float_literal_def int_literal_def all_digits_def str_int_def str_nat.simps
      DEC_DIGITS_def)

theorem fatal_conditions_write_nothing_witness:
  "length [''computeStatistics.py''] \<noteq> 2
   \<and> statistics_scenario ([''computeStatistics.py'', ''missing.txt''] ! 1) = None
   \<and> (\<exists>errors. read_numbers float_literal (\<lambda>path. Some [''abc'']) ([''computeStatistics.py'', ''in.txt''] ! 1)
          = Ok ([], errors))
   \<and> (\<exists>out. statistics_main float_literal statistics_scenario 0 [''computeStatistics.py''] = Inr out
          \<and> exit_status out = 1 \<and> saved out = None)
   \<and> (\<exists>out. statistics_main float_literal statistics_scenario 0 [''computeStatistics.py'', ''missing.txt'']
          = Inr out \<and> exit_status out = 1 \<and> saved out = None)
   \<and> (\<exists>out. statistics_main float_literal (\<lambda>path. Some [''abc'']) 0 [''computeStatistics.py'', ''in.txt'']
          = Inr out \<and> exit_status out = 1 \<and> saved out = None)
   \<and> saved (convert_main int_literal statistics_scenario 0 [''convertNumbers.py'', ''missing.txt'']) = None
   \<and> saved (wordcount_main statistics_scenario 0 [''wordCount.py'', ''missing.txt'']) = None"
proof -
  have a: "length [''computeStatistics.py''] \<noteq> 2"
    by simp
  have b: "statistics_scenario ([''computeStatistics.py'', ''missing.txt''] ! 1) = None"
    "statistics_scenario ([''convertNumbers.py'', ''missing.txt''] ! 1) = None"
    "statistics_scenario ([''wordCount.py'', ''missing.txt''] ! 1) = None"
    by (simp_all add: statistics_scenario_def)
  have c: "\<exists>errors. read_numbers float_literal (\<lambda>path. Some [''abc'']) ([''computeStatistics.py'', ''in.txt''] ! 1)
          = Ok ([], errors)"
    using no_valid_numbers by simp
  from a fatal_conditions_write_nothing [of "[''computeStatistics.py'']" statistics_scenario float_literal 0]
  have 1: "\<exists>out. statistics_main float_literal statistics_scenario 0 [''computeStatistics.py''] = Inr out
          \<and> exit_status out = 1 \<and> saved out = None"
    by blast
  from b(1) fatal_conditions_write_nothing [of "[''computeStatistics.py'', ''missing.txt'']" statistics_scenario float_literal 0]
  have 2: "\<exists>out. statistics_main float_literal statistics_scenario 0 [''computeStatistics.py'', ''missing.txt'']
          = Inr out \<and> exit_status out = 1 \<and> saved out = None"
    by blast
  from c fatal_conditions_write_nothing [of "[''computeStatistics.py'', ''in.txt'']" "\<lambda>path. Some [''abc'']" float_literal 0]
  have 3: "\<exists>out. statistics_main float_literal (\<lambda>path. Some [''abc'']) 0 [''computeStatistics.py'', ''in.txt'']
          = Inr out \<and> exit_status out = 1 \<and> saved out = None"
    by blast
  from b(2) fatal_conditions_write_nothing [of "[''convertNumbers.py'', ''missing.txt'']" statistics_scenario float_literal 0 int_literal]
  have 4: "saved (convert_main int_literal statistics_scenario 0 [''convertNumbers.py'', ''missing.txt'']) = None"
    by blast
  from b(3) fatal_conditions_write_nothing [of "[''wordCount.py'', ''missing.txt'']" statistics_scenario float_literal 0 int_literal]
  have 5: "saved (wordcount_main statistics_scenario 0 [''wordCount.py'', ''missing.txt'']) = None"
    by blast
  from a b(1) c 1 2 3 4 5 show ?thesis
    by blast
qed

section \<open>Properties of wordCount.py\<close>

lemma split_nonempty: "split s c \<noteq> []"
  by (induction s) auto

lemma join_split: "join [c] (split s c) = s"
proof (induction s)
  case Nil
  show ?case by simp
next
  case (Cons x s)
  obtain p ps where ps: "split s c = p # ps"
    using split_nonempty [of s c] by (cases "split s c") auto
  with Cons.IH show ?case
    by (cases ps) auto
qed

lemma split_parts_no_sep: "part \<in> set (split s c) \<Longrightarrow> c \<notin> set part"
proof (induction s arbitrary: part)
  case Nil
  then show ?case by simp
next
  case (Cons x s)
  obtain p ps where ps: "split s c = p # ps"
    using split_nonempty [of s c] by (cases "split s c") auto
  with Cons show ?case
    by (auto split: if_splits)
qed

lemma length_split: "length (split s c) = Suc (count_list s c)"
proof (induction s)
  case Nil
  show ?case by simp
next
  case (Cons x s)
  obtain p ps where ps: "split s c = p # ps"
    using split_nonempty [of s c] by (cases "split s c") auto
  with Cons.IH show ?case
    by auto
qed

lemma split_append_sep: "split (xs @ c # ys) c = split xs c @ split ys c"
proof (induction xs)
  case Nil
  show ?case by simp
next
  case (Cons x xs)
  obtain p ps where ps: "split xs c = p # ps"
    using split_nonempty [of xs c] by (cases "split xs c") auto
  with Cons.IH show ?case
    by simp
qed

lemma normalize_token_eq: "normalize_token token = concat (map lower (filter isalnum token))"
proof -
  have "foldl (\<lambda>cleaned ch. if isalnum ch then cleaned @ [lower ch] else cleaned) acc token =
      acc @ map lower (filter isalnum token)" for acc
    by (induction token arbitrary: acc) simp_all
  then show ?thesis
    by (simp add: normalize_token_def)
qed

lemma words_of_parts_eq:
  "words_of_parts ws parts =
     ws @ map (\<lambda>part. if normalize_token part = [] then ''(blank)'' else normalize_token part) parts"
  unfolding words_of_parts_def
  by (induction parts arbitrary: ws) (simp_all add: Let_def)

lemma read_words_step_eq:
  "strip (rstrip_chars line [CHR 0x0A]) \<noteq> [] \<Longrightarrow>
     read_words_step (ws, errors) (k, line) =
       (ws @ map (\<lambda>part. if normalize_token part = [] then ''(blank)'' else normalize_token part)
               (split (rstrip_chars line [CHR 0x0A]) CHR '' ''), errors)"
  by (simp add: read_words_step_def Let_def words_of_parts_eq)

lemma read_words_step_blank:
  "strip (rstrip_chars line [CHR 0x0A]) = [] \<Longrightarrow>
     read_words_step (ws, errors) (k, line) =
       (ws, errors @ [''Line '' @ str_int (int k) @ '': empty line (skipped)''])"
  by (simp add: read_words_step_def Let_def)

lemma two_spaces_example: "read_words_step ([], []) (1, ''a  b'') = ([''a'', ''(blank)'', ''b''], [])"
  by code_simp

lemma token_of_normalize:
  "token_of part = (if normalize_token part = [] then ''(blank)'' else normalize_token part)"
  unfolding token_of_def normalize_token_eq Let_def ..

lemma read_words_step_cases:
  "read_words_step (ws, es) (k, line) =
     (if blank_line line then (ws, es @ [skipped_message (k, line)])
      else (ws @ line_words line, es))"
proof (cases "blank_line line")
  case True
  then have "strip (rstrip_chars line [CHR 0x0A]) = []"
    by (simp add: blank_line_def)
  from read_words_step_blank [OF this, of ws es k] True show ?thesis
    by (simp add: skipped_message_def)
next
  case False
  then have "strip (rstrip_chars line [CHR 0x0A]) \<noteq> []"
    by (simp add: blank_line_def)
  from read_words_step_eq [OF this, of ws es k]
  have "read_words_step (ws, es) (k, line) = (ws @ line_words line, es)"
    unfolding line_words_def token_of_normalize .
  with False show ?thesis
    by simp
qed

lemma read_words_foldl:
  "foldl read_words_step (ws, es) (List.enumerate n content) =
     (ws @ concat (map line_words (filter (\<lambda>line. \<not> blank_line line) content)),
      es @ map skipped_message (filter (\<lambda>entry. blank_line (snd entry)) (List.enumerate n content)))"
  by (induction content arbitrary: ws es n) (simp_all add: read_words_step_cases)

lemma read_words_eq:
  "fs filename = Some content \<Longrightarrow>
     read_words fs filename =
       Ok (concat (map line_words (filter (\<lambda>line. \<not> blank_line line) content)),
           map skipped_message (filter (\<lambda>entry. blank_line (snd entry)) (List.enumerate 1 content)))"
  using read_words_foldl [of "[]" "[]" 1 content] by (simp add: read_words_def)

text \<open>
  Claim C5. The utility reads every line of its input. A line that is not empty once
  trimmed is cut at every single space of the line (without its trailing newline) and
  nowhere else: joining the parts with one space gives the line back, no part holds a
  space, there is one part more than there are spaces, and two spaces in a row leave
  an empty part between them. Every part becomes its alphanumeric characters in lower
  case, or the token (blank) when none is left. The words of the file are the tokens of
  these lines in order, a line that is empty once trimmed gives no token and one error
  entry, and \<^verbatim>\<open>main\<close> counts exactly these words. The line \<^verbatim>\<open>a  b\<close> with two
  spaces yields a, (blank), b.
\<close>

theorem file_tokens:
  "(fs filename = Some content \<longrightarrow>
      read_words fs filename =
        Ok (concat (map line_words (filter (\<lambda>line. \<not> blank_line line) content)),
            map skipped_message (filter (\<lambda>entry. blank_line (snd entry)) (List.enumerate 1 content))))
   \<and> (length argv = 2 \<longrightarrow> fs (argv ! 1) = Some content \<longrightarrow>
        concat (map line_words (filter (\<lambda>line. \<not> blank_line line) content)) \<noteq> [] \<longrightarrow>
        saved (wordcount_main fs t argv) =
          Some (wordcount_RESULT_FILE,
                build_report (argv ! 1)
                  (count_frequencies (concat (map line_words (filter (\<lambda>line. \<not> blank_line line) content))))
                  (int (length (concat (map line_words (filter (\<lambda>line. \<not> blank_line line) content))))) t))
   \<and> line_words line = map token_of (split (rstrip_chars line [CHR 0x0A]) CHR '' '')
   \<and> join '' '' (split s CHR '' '') = s
   \<and> (\<forall>part \<in> set (split s CHR '' ''). CHR '' '' \<notin> set part)
   \<and> length (split s CHR '' '') = Suc (count_list s CHR '' '')
   \<and> split (xs @ ''  '' @ ys) CHR '' '' = split xs CHR '' '' @ [] # split ys CHR '' ''
   \<and> normalize_token part = concat (map lower (filter isalnum part))
   \<and> token_of part = (if filter isalnum part = [] then ''(blank)'' else normalize_token part)
   \<and> read_words (\<lambda>path. Some [''a  b'']) filename = Ok ([''a'', ''(blank)'', ''b''], [])"
proof (intro conjI impI ballI)
  assume "fs filename = Some content"
  then show "read_words fs filename =
      Ok (concat (map line_words (filter (\<lambda>line. \<not> blank_line line) content)),
          map skipped_message (filter (\<lambda>entry. blank_line (snd entry)) (List.enumerate 1 content)))"
    by (rule read_words_eq)
next
  assume "length argv = 2" "fs (argv ! 1) = Some content"
    "concat (map line_words (filter (\<lambda>line. \<not> blank_line line) content)) \<noteq> []"
  then show "saved (wordcount_main fs t argv) =
      Some (wordcount_RESULT_FILE,
            build_report (argv ! 1)
              (count_frequencies (concat (map line_words (filter (\<lambda>line. \<not> blank_line line) content))))
              (int (length (concat (map line_words (filter (\<lambda>line. \<not> blank_line line) content))))) t)"
    using read_words_eq [of fs "argv ! 1" content]
    by (simp add: wordcount_main_def Let_def)
next
  show "line_words line = map token_of (split (rstrip_chars line [CHR 0x0A]) CHR '' '')"
    by (rule line_words_def)
next
  show "join '' '' (split s CHR '' '') = s"
    by (rule join_split)
next
  fix p
  assume "p \<in> set (split s CHR '' '')"
  then show "CHR '' '' \<notin> set p"
    by (rule split_parts_no_sep)
next
  show "length (split s CHR '' '') = Suc (count_list s CHR '' '')"
    by (rule length_split)
next
  have "split (xs @ CHR '' '' # (CHR '' '' # ys)) CHR '' '' = split xs CHR '' '' @ split (CHR '' '' # ys) CHR '' ''"
    by (rule split_append_sep)
  then show "split (xs @ ''  '' @ ys) CHR '' '' = split xs CHR '' '' @ [] # split ys CHR '' ''"
    by simp
next
  show "normalize_token part = concat (map lower (filter isalnum part))"
    by (rule normalize_token_eq)
next
  have "lower c \<noteq> []" for c
    by (simp add: lower_def Let_def)
  then have "concat (map lower (filter isalnum part)) = [] \<longleftrightarrow> filter isalnum part = []"
    by (cases "filter isalnum part") auto
  then show "token_of part = (if filter isalnum part = [] then ''(blank)'' else normalize_token part)"
    by (simp add: token_of_def normalize_token_eq Let_def)
next
  have "read_words (\<lambda>path. Some [''a  b'']) filename =
      Ok (concat (map line_words (filter (\<lambda>line. \<not> blank_line line) [''a  b''])),
          map skipped_message (filter (\<lambda>entry. blank_line (snd entry)) (List.enumerate 1 [''a  b''])))"
    by (rule read_words_eq) simp
  moreover have "concat (map line_words (filter (\<lambda>line. \<not> blank_line line) [''a  b''])) = [''a'', ''(blank)'', ''b'']"
    by code_simp
  moreover have "map skipped_message (filter (\<lambda>entry. blank_line (snd entry)) (List.enumerate 1 [''a  b''])) = []"
    by code_simp
  ultimately show "read_words (\<lambda>path. Some [''a  b'']) filename = Ok ([''a'', ''(blank)'', ''b''], [])"
    by simp
qed

theorem file_tokens_witness:
  "(\<lambda>path. Some [''Hello,  World!'' @ [CHR 0x0A], [CHR 0xA0, CHR 0x0A], [CHR ''C'', CHR ''a'', CHR ''f'', CHR 0xC9]]) ''in.txt''
      = Some [''Hello,  World!'' @ [CHR 0x0A], [CHR 0xA0, CHR 0x0A], [CHR ''C'', CHR ''a'', CHR ''f'', CHR 0xC9]]
   \<and> read_words (\<lambda>path. Some [''Hello,  World!'' @ [CHR 0x0A], [CHR 0xA0, CHR 0x0A], [CHR ''C'', CHR ''a'', CHR ''f'', CHR 0xC9]]) ''in.txt''
      = Ok ([''hello'', ''(blank)'', ''world'', [CHR ''c'', CHR ''a'', CHR ''f'', CHR 0xE9]],
            [''Line 2: empty line (skipped)''])"
proof -
  let ?content = "[''Hello,  World!'' @ [CHR 0x0A], [CHR 0xA0, CHR 0x0A], [CHR ''C'', CHR ''a'', CHR ''f'', CHR 0xC9]]"
  let ?fs = "\<lambda>path :: string. Some ?content"
  have some: "?fs ''in.txt'' = Some ?content"
    by simp
  with file_tokens [of ?fs "''in.txt''" ?content]
  have "read_words ?fs ''in.txt'' =
      Ok (concat (map line_words (filter (\<lambda>line. \<not> blank_line line) ?content)),
          map skipped_message (filter (\<lambda>entry. blank_line (snd entry)) (List.enumerate 1 ?content)))"
    by blast
  moreover have "concat (map line_words (filter (\<lambda>line. \<not> blank_line line) ?content)) =
      [''hello'', ''(blank)'', ''world'', [CHR ''c'', CHR ''a'', CHR ''f'', CHR 0xE9]]"
    by code_simp
  moreover have "map skipped_message (filter (\<lambda>entry. blank_line (snd entry)) (List.enumerate 1 ?content)) =
      [''Line 2: empty line (skipped)'']"
    by code_simp
  ultimately have "read_words ?fs ''in.txt'' =
      Ok ([''hello'', ''(blank)'', ''world'', [CHR ''c'', CHR ''a'', CHR ''f'', CHR 0xE9]],
          [''Line 2: empty line (skipped)''])"
    by simp
  with some show ?thesis
    by blast
qed

lemma build_report_rows:
  "build_report filename (count_frequencies ws) grand_total elapsed =
     [Txt ''Row Labels'', Txt [CHR 0x09], Txt ''Count of '', Txt (splitext_root (basename filename))]
     # map (\<lambda>w. [Txt w, Txt [CHR 0x09], Txt (str_int (int (count_list ws w)))]) (first_occurrences ws)
     @ [[Txt ''Grand Total'', Txt [CHR 0x09], Txt (str_int grand_total)],
        [Txt ''Elapsed time (s): '', Flt elapsed]]"
  by (simp add: build_report_def count_frequencies_def foldl_count_step_empty comp_def)

text \<open>
  Claim C7. For every list of words the report has, between its header and the Grand
  Total line, one row for each distinct word, in the order in which the words first
  occur in the list, each with the number of occurrences of the word in the list. The
  order of first occurrence is that of reading the list from the left: a word seen
  before changes nothing, a new word goes to the end.
\<close>

theorem report_rows_first_seen:
  "build_report filename (count_frequencies ws) grand_total elapsed =
     [Txt ''Row Labels'', Txt [CHR 0x09], Txt ''Count of '', Txt (splitext_root (basename filename))]
     # map (\<lambda>w. [Txt w, Txt [CHR 0x09], Txt (str_int (int (count_list ws w)))]) (first_occurrences ws)
     @ [[Txt ''Grand Total'', Txt [CHR 0x09], Txt (str_int grand_total)],
        [Txt ''Elapsed time (s): '', Flt elapsed]]
   \<and> distinct (first_occurrences ws)
   \<and> set (first_occurrences ws) = set ws
   \<and> first_occurrences (ws @ [w]) =
       (if w \<in> set ws then first_occurrences ws else first_occurrences ws @ [w])"
  by (simp only: build_report_rows distinct_first_occurrences set_first_occurrences
      first_occurrences_snoc simp_thms)

theorem report_rows_first_seen_witness:
  "build_report ''dir/in.txt'' (count_frequencies [''pear'', ''apple'', ''apple'', ''pear'', ''apple'']) 5 0 =
     [[Txt ''Row Labels'', Txt [CHR 0x09], Txt ''Count of '', Txt ''in''],
      [Txt ''pear'', Txt [CHR 0x09], Txt ''2''],
      [Txt ''apple'', Txt [CHR 0x09], Txt ''3''],
      [Txt ''Grand Total'', Txt [CHR 0x09], Txt ''5''],
      [Txt ''Elapsed time (s): '', Flt 0]]"
proof -
  have "splitext_root (basename ''dir/in.txt'') = ''in''"
    by (simp add: splitext_root_def basename_def)
  moreover have "str_int 2 = ''2''" "str_int 3 = ''3''" "str_int 5 = ''5''"
    by (simp_all add: str_int_def str_nat.simps DEC_DIGITS_def)
  ultimately show ?thesis
    using report_rows_first_seen [of "''dir/in.txt''" "[''pear'', ''apple'', ''apple'', ''pear'', ''apple'']" 5 0]
    by simp
qed

lemma sum_counts: "sum_list (map snd (count_frequencies ws)) = int (length ws)"
  using sum_counts_foldl [of "[]" ws] by (simp add: count_frequencies_def)

text \<open>
  Claim C10. The counts of the table that \<^const>\<open>count_frequencies\<close> returns add up to the
  length of the word list, so the total that \<^verbatim>\<open>main\<close> passes to the report, the number
  of words, is the sum of the counts; the report shows it on its Grand Total line, the
  last but one.
\<close>

theorem counts_sum_to_token_count:
  "sum_list (map snd (count_frequencies ws)) = int (length ws)
   \<and> (length argv = 2 \<longrightarrow> read_words fs (argv ! 1) = Ok (ws, errors) \<longrightarrow> ws \<noteq> [] \<longrightarrow>
        saved (wordcount_main fs t argv) =
          Some (wordcount_RESULT_FILE,
                build_report (argv ! 1) (count_frequencies ws)
                  (sum_list (map snd (count_frequencies ws))) t))
   \<and> last (butlast (build_report filename freq grand_total t)) =
        [Txt ''Grand Total'', Txt [CHR 0x09], Txt (str_int grand_total)]"
proof (intro conjI impI)
  show "sum_list (map snd (count_frequencies ws)) = int (length ws)"
    by (rule sum_counts)
next
  assume "length argv = 2" "read_words fs (argv ! 1) = Ok (ws, errors)" "ws \<noteq> []"
  then show "saved (wordcount_main fs t argv) =
      Some (wordcount_RESULT_FILE,
            build_report (argv ! 1) (count_frequencies ws) (sum_list (map snd (count_frequencies ws))) t)"
    by (simp add: wordcount_main_def Let_def sum_counts)
next
  show "last (butlast (build_report filename freq grand_total t)) =
      [Txt ''Grand Total'', Txt [CHR 0x09], Txt (str_int grand_total)]"
    by (simp add: build_report_def butlast_append)
qed

theorem counts_sum_to_token_count_witness:
  "length [''wordCount.py'', ''in.txt''] = 2
   \<and> read_words (\<lambda>path. Some [''a  b'']) ([''wordCount.py'', ''in.txt''] ! 1) =
       Ok ([''a'', ''(blank)'', ''b''], [])
   \<and> [''a'', ''(blank)'', ''b''] \<noteq> []
   \<and> saved (wordcount_main (\<lambda>path. Some [''a  b'']) 0 [''wordCount.py'', ''in.txt'']) =
       Some (wordcount_RESULT_FILE,
             build_report ([''wordCount.py'', ''in.txt''] ! 1) (count_frequencies [''a'', ''(blank)'', ''b''])
               (sum_list (map snd (count_frequencies [''a'', ''(blank)'', ''b'']))) 0)
   \<and> sum_list (map snd (count_frequencies [''a'', ''(blank)'', ''b''])) = 3"
proof -
  let ?argv = "[''wordCount.py'', ''in.txt'']"
  let ?ws = "[''a'', ''(blank)'', ''b'']"
  have len: "length ?argv = 2"
    by simp
  have "read_words (\<lambda>path. Some [''a  b'']) ''in.txt'' = Ok (?ws, [])"
    by code_simp
  then have rd: "read_words (\<lambda>path. Some [''a  b'']) (?argv ! 1) = Ok (?ws, [])"
    by simp
  have ne: "?ws \<noteq> []"
    by simp
  from counts_sum_to_token_count [of ?ws ?argv "\<lambda>path. Some [''a  b'']" "[]" 0] len rd ne
  have "saved (wordcount_main (\<lambda>path. Some [''a  b'']) 0 ?argv) =
       Some (wordcount_RESULT_FILE,
             build_report (?argv ! 1) (count_frequencies ?ws) (sum_list (map snd (count_frequencies ?ws))) 0)"
    and "sum_list (map snd (count_frequencies ?ws)) = int (length ?ws)"
    by blast+
  with len rd ne show ?thesis
    by simp
qed

end
